theory Spec2Isabelle
  imports Complex_Main "HOL-Library.Sublist"
begin

section \<open>Python values used by the query engine\<close>

text \<open>
  Strings are lists of 8-bit code points (the Latin-1 range of Python's \<open>str\<close>).
  \<open>lower\<close> is \<open>str.lower()\<close> on that range: the upper-case letters \<open>A..Z\<close> (65..90) and
  \<open>0xC0..0xDE\<close> without \<open>0xD7\<close> move 32 places up, which is setting bit 5.
  \<open>isspace\<close> lists the code points below 256 that \<open>str.isspace()\<close> accepts, and
  \<open>strip\<close> is \<open>str.strip()\<close> without arguments.
\<close>

fun lower_char :: "char \<Rightarrow> char" where
  "lower_char (Char b0 b1 b2 b3 b4 b5 b6 b7) =
     (let n = (of_char (Char b0 b1 b2 b3 b4 b5 b6 b7) :: nat)
      in if (65 \<le> n \<and> n \<le> 90) \<or> (192 \<le> n \<and> n \<le> 222 \<and> n \<noteq> 215)
         then Char b0 b1 b2 b3 b4 True b6 b7
         else Char b0 b1 b2 b3 b4 b5 b6 b7)"

definition lower :: "string \<Rightarrow> string" where
  "lower s = map lower_char s"

definition isspace :: "char \<Rightarrow> bool" where
  "isspace c = ((of_char c :: nat) \<in> {9, 10, 11, 12, 13, 28, 29, 30, 31, 32, 133, 160})"

definition strip :: "string \<Rightarrow> string" where
  "strip s = rev (dropWhile isspace (rev (dropWhile isspace s)))"

text \<open>\<open>a in b\<close> on strings: \<open>a\<close> occurs in \<open>b\<close> as a contiguous block.\<close>

definition py_in :: "string \<Rightarrow> string \<Rightarrow> bool" where
  "py_in a b = sublist a b"

text \<open>The slice \<open>xs[:n]\<close>; a negative \<open>n\<close> counts from the end.\<close>

definition slice_to :: "int \<Rightarrow> 'a list \<Rightarrow> 'a list" where
  "slice_to n xs = (if 0 \<le> n then take (nat n) xs else take (length xs - nat (- n)) xs)"

subsection \<open>Exceptions\<close>

text \<open>
  An exception is its class and its message argument. \<open>ExternalError\<close> stands for whatever
  the third-party clients (OpenAI, httpx, Qdrant) raise. \<open>str_exn\<close> is \<open>str(e)\<close>: a
  \<open>KeyError\<close> prints the \<open>repr\<close> of its argument. \<open>py_repr\<close> is \<open>repr\<close> of a string:
  single quotes, or double quotes when the string holds an apostrophe and no double
  quote; the backslash and the chosen quote are escaped, tab, newline and carriage
  return are written \<open>\t\<close>, \<open>\n\<close>, \<open>\r\<close>, and the other code points that are not printable
  (below 32, 127, 128 to 160, 173) are written \<open>\xNN\<close> with two lower-case hex digits.
\<close>

datatype exc_class = ValueError | KeyError | TypeError | AIServiceError | DatabaseError | ExternalError

datatype exn = Exn exc_class string

fun exn_class :: "exn \<Rightarrow> exc_class" where
  "exn_class (Exn c m) = c"

definition hex_digit :: "nat \<Rightarrow> char" where
  "hex_digit d = ''0123456789abcdef'' ! (d mod 16)"

definition repr_char :: "char \<Rightarrow> char \<Rightarrow> string" where
  "repr_char quote c =
     (let n = (of_char c :: nat)
      in if c = quote \<or> c = CHR 0x5C then [CHR 0x5C, c]
         else if n = 9 then [CHR 0x5C, CHR ''t'']
         else if n = 10 then [CHR 0x5C, CHR ''n'']
         else if n = 13 then [CHR 0x5C, CHR ''r'']
         else if n < 32 \<or> n = 127 \<or> (128 \<le> n \<and> n \<le> 160) \<or> n = 173
         then [CHR 0x5C, CHR ''x'', hex_digit (n div 16), hex_digit n]
         else [c])"

definition py_repr :: "string \<Rightarrow> string" where
  "py_repr s =
     (let quote = (if CHR 0x27 \<in> set s \<and> CHR 0x22 \<notin> set s then CHR 0x22 else CHR 0x27)
      in [quote] @ concat (map (repr_char quote) s) @ [quote])"

fun str_exn :: "exn \<Rightarrow> string" where
  "str_exn (Exn KeyError m) = py_repr m"
| "str_exn (Exn c m) = m"

section \<open>Stored points and search results (utils.py)\<close>

datatype pval = PStr string | PNum real | PBool bool | PNull

type_synonym payload = "(string \<times> pval) list"

text \<open>\<open>d.get(k, default)\<close> on a dictionary kept as an association list.\<close>

definition dict_get :: "payload \<Rightarrow> string \<Rightarrow> pval \<Rightarrow> pval" where
  "dict_get d k dflt = (case map_of d k of None \<Rightarrow> dflt | Some v \<Rightarrow> v)"

record point =
  p_id :: string
  p_vector :: "real list"
  p_payload :: payload

record scored_point =
  hit_id :: string
  hit_score :: real
  hit_payload :: payload

text \<open>The dictionary that the search functions build for each hit: always these six keys.\<close>

record scored_result =
  r_id :: string
  r_score :: real
  r_text :: pval
  r_timestamp :: pval
  r_content_type :: pval
  r_metadata :: payload

datatype schema_type = KEYWORD | FLOAT

record collection =
  vectors_size :: int
  points :: "point list"
  payload_indexes :: "(string \<times> schema_type) list"

type_synonym qdrant = "string \<rightharpoonup> collection"

datatype field_condition = FieldCondition string pval

datatype qfilter = Filter "field_condition list"

subsection \<open>The vector store service\<close>

text \<open>
  The store is an external service; its state is a map from collection names to
  collections and its operations are modelled as the client library documents them:
  reading or searching an absent collection raises, creating an existing one raises,
  deleting is idempotent, and a payload index is added once. A search keeps the points
  that satisfy every \<open>must\<close> condition of the filter (payload key equal to the given
  value), scores them with the similarity of the service (a parameter: cosine distance is
  floating-point arithmetic), drops scores below the threshold when one is given, orders
  by descending score and returns the first \<open>limit\<close> hits. Transport faults are not part
  of this state model.
\<close>

definition get_collection :: "qdrant \<Rightarrow> string \<Rightarrow> exn + collection" where
  "get_collection q name =
     (case q name of
        None \<Rightarrow> Inl (Exn ExternalError (''Collection '' @ name @ '' not found''))
      | Some c \<Rightarrow> Inr c)"

definition delete_collection :: "qdrant \<Rightarrow> string \<Rightarrow> qdrant" where
  "delete_collection q name = q(name := None)"

definition create_collection :: "qdrant \<Rightarrow> string \<Rightarrow> int \<Rightarrow> exn + qdrant" where
  "create_collection q name dims =
     (case q name of
        Some c \<Rightarrow> Inl (Exn ExternalError (''Collection '' @ name @ '' already exists''))
      | None \<Rightarrow> Inr (q(name \<mapsto> \<lparr>vectors_size = dims, points = [], payload_indexes = []\<rparr>)))"

definition create_payload_index :: "qdrant \<Rightarrow> string \<Rightarrow> string \<Rightarrow> schema_type \<Rightarrow> exn + qdrant" where
  "create_payload_index q name field schema =
     (case q name of
        None \<Rightarrow> Inl (Exn ExternalError (''Collection '' @ name @ '' not found''))
      | Some c \<Rightarrow>
          Inr (q(name \<mapsto> c\<lparr>payload_indexes :=
                 (if field \<in> set (map fst (payload_indexes c)) then payload_indexes c
                  else payload_indexes c @ [(field, schema)])\<rparr>)))"

fun condition_holds :: "payload \<Rightarrow> field_condition \<Rightarrow> bool" where
  "condition_holds pl (FieldCondition k v) = (map_of pl k = Some v)"

fun filter_matches :: "qfilter \<Rightarrow> point \<Rightarrow> bool" where
  "filter_matches (Filter must) p = list_all (condition_holds (p_payload p)) must"

definition score_point :: "(real list \<Rightarrow> real list \<Rightarrow> real) \<Rightarrow> real list \<Rightarrow> point \<Rightarrow> scored_point" where
  "score_point sim qv p =
     \<lparr>hit_id = p_id p, hit_score = sim qv (p_vector p), hit_payload = p_payload p\<rparr>"

definition above_threshold :: "real option \<Rightarrow> scored_point \<Rightarrow> bool" where
  "above_threshold th h = (case th of None \<Rightarrow> True | Some t \<Rightarrow> t \<le> hit_score h)"

definition qdrant_search ::
  "(real list \<Rightarrow> real list \<Rightarrow> real) \<Rightarrow> qdrant \<Rightarrow> string \<Rightarrow> real list \<Rightarrow> qfilter \<Rightarrow> int \<Rightarrow>
   real option \<Rightarrow> exn + scored_point list" where
  "qdrant_search sim q name qv flt limit th =
     (case q name of
        None \<Rightarrow> Inl (Exn ExternalError (''Collection '' @ name @ '' not found''))
      | Some c \<Rightarrow>
          if int (length qv) \<noteq> vectors_size c
          then Inl (Exn ExternalError ''Vector dimension error'')
          else Inr (take (nat limit)
                 (sort_key (\<lambda>h. - hit_score h)
                    (filter (above_threshold th)
                       (map (score_point sim qv) (filter (filter_matches flt) (points c)))))))"

subsection \<open>Configuration and collection bootstrap\<close>

record config =
  provider :: string
  model :: string
  embedding_model :: string
  qdrant_collection_name :: string

definition dimensions_map :: "(string \<times> (string \<times> int) list) list" where
  "dimensions_map =
     [(''OpenAI'', [(''text-embedding-ada-002'', 1536), (''text-embedding-3-small'', 1536),
                    (''text-embedding-3-large'', 3072)]),
      (''Gemini'', [(''text-embedding-004'', 768), (''embedding-001'', 768),
                    (''embedding-gecko-001'', 768)]),
      (''Claude'', [(''text-embedding-ada-002'', 1536)]),
      (''GitHub'', [(''text-embedding-ada-002'', 1536), (''text-embedding-3-small'', 1536)]),
      (''Custom'', [(''default'', 1536)])]"

definition get_embedding_dimensions :: "string \<Rightarrow> string \<Rightarrow> int" where
  "get_embedding_dimensions prov emb_model =
     (let provider_models = (case map_of dimensions_map prov of None \<Rightarrow> [] | Some ms \<Rightarrow> ms)
      in case map_of provider_models emb_model of None \<Rightarrow> 1536 | Some d \<Rightarrow> d)"

text \<open>
  \<open>_ensure_indexes_exist\<close>: three index requests inside one \<open>try\<close>; the first one that
  raises ends the block and the exception is logged and dropped.
\<close>

definition ensure_indexes_exist :: "qdrant \<Rightarrow> string \<Rightarrow> qdrant" where
  "ensure_indexes_exist q name =
     (case create_payload_index q name ''username'' KEYWORD of
        Inl e \<Rightarrow> q
      | Inr q1 \<Rightarrow>
          (case create_payload_index q1 name ''content_type'' KEYWORD of
             Inl e \<Rightarrow> q1
           | Inr q2 \<Rightarrow>
               (case create_payload_index q2 name ''timestamp'' FLOAT of
                  Inl e \<Rightarrow> q2
                | Inr q3 \<Rightarrow> q3)))"

definition create_collection_with_indexes :: "qdrant \<Rightarrow> string \<Rightarrow> int \<Rightarrow> exn option \<times> qdrant" where
  "create_collection_with_indexes q name dims =
     (case create_collection q name dims of
        Inl e \<Rightarrow> (Some e, q)
      | Inr q1 \<Rightarrow> (None, ensure_indexes_exist q1 name))"

text \<open>
  \<open>ensure_collection_exists\<close>: any exception of the \<open>try\<close> body (the collection is
  absent, or the recreation failed) lands in the handler, which creates the collection.
  The result is the exception that leaves the function, if any, and the store afterwards.
\<close>

definition ensure_collection_exists :: "config \<Rightarrow> qdrant \<Rightarrow> string \<Rightarrow> exn option \<times> qdrant" where
  "ensure_collection_exists cfg q name =
     (let expected_dims = get_embedding_dimensions (provider cfg) (embedding_model cfg)
      in case get_collection q name of
           Inl e \<Rightarrow> create_collection_with_indexes q name expected_dims
         | Inr collection_info \<Rightarrow>
             if vectors_size collection_info \<noteq> expected_dims
             then (case create_collection_with_indexes (delete_collection q name) name expected_dims of
                     (Some e, q2) \<Rightarrow> create_collection_with_indexes q2 name expected_dims
                   | (None, q2) \<Rightarrow> (None, q2))
             else (None, ensure_indexes_exist q name))"

section \<open>Recency cache (cache_manager.py)\<close>

record SearchResult =
  query :: string
  results :: "scored_result list"
  timestamp :: real
  username :: string

text \<open>
  The \<open>OrderedDict\<close> is an association list in insertion order, oldest first. Assigning
  to a present key keeps its place, assigning to a new key appends, \<open>del\<close> removes the
  binding, and \<open>popitem(last=False)\<close> removes the first binding.
\<close>

type_synonym search_cache_t = "(string \<times> SearchResult) list"

record CacheManager =
  max_search_cache :: int
  search_cache :: search_cache_t

definition od_contains :: "string \<Rightarrow> search_cache_t \<Rightarrow> bool" where
  "od_contains k od = (k \<in> set (map fst od))"

definition od_del :: "string \<Rightarrow> search_cache_t \<Rightarrow> search_cache_t" where
  "od_del k od = filter (\<lambda>kv. fst kv \<noteq> k) od"

definition od_set :: "string \<Rightarrow> SearchResult \<Rightarrow> search_cache_t \<Rightarrow> search_cache_t" where
  "od_set k v od =
     (if od_contains k od then map (\<lambda>kv. if fst kv = k then (k, v) else kv) od
      else od @ [(k, v)])"

definition cache_key :: "string \<Rightarrow> string \<Rightarrow> string" where
  "cache_key uname q = uname @ '':'' @ q"

text \<open>
  The eviction loop \<open>while len(cache) > max: cache.popitem(last=False)\<close>. On an empty
  dictionary \<open>popitem\<close> raises \<open>KeyError\<close>, which a negative bound reaches.
\<close>

fun evict_oldest :: "int \<Rightarrow> search_cache_t \<Rightarrow> exn option \<times> search_cache_t" where
  "evict_oldest mx [] =
     (if 0 > mx then (Some (Exn KeyError ''dictionary is empty''), []) else (None, []))"
| "evict_oldest mx (kv # od) =
     (if int (length (kv # od)) > mx then evict_oldest mx od else (None, kv # od))"

text \<open>
  \<open>cache_search_result\<close>; \<open>now\<close> is the value of \<open>time.time()\<close>. Writing the cache file is
  best effort (every exception of it is caught and printed) and leaves the dictionary as
  it is, so it is not part of the result.
\<close>

definition cache_search_result ::
  "string \<Rightarrow> scored_result list \<Rightarrow> string \<Rightarrow> real \<Rightarrow> CacheManager \<Rightarrow> exn option \<times> CacheManager" where
  "cache_search_result q rs uname now cm =
     (let k = cache_key uname q;
          od1 = (if od_contains k (search_cache cm) then od_del k (search_cache cm)
                 else search_cache cm);
          result = \<lparr>query = q, results = rs, timestamp = now, username = uname\<rparr>;
          od2 = od_set k result od1;
          (err, od3) = evict_oldest (max_search_cache cm) od2
      in (err, cm\<lparr>search_cache := od3\<rparr>))"

text \<open>\<open>_load_search_cache\<close> on the decoded list of the cache file.\<close>

definition load_search_cache :: "SearchResult list \<Rightarrow> search_cache_t \<Rightarrow> search_cache_t" where
  "load_search_cache items od =
     foldl (\<lambda>acc r. od_set (cache_key (username r) (query r)) r acc) od items"

text \<open>
  \<open>get_cached_searches\<close>: the owner's entries, sorted by timestamp with
  \<open>reverse=True\<close> (a stable sort: equal timestamps keep the dictionary order), cut to
  \<open>limit\<close>.
\<close>

definition get_cached_searches :: "string \<Rightarrow> int \<Rightarrow> CacheManager \<Rightarrow> SearchResult list" where
  "get_cached_searches uname limit cm =
     (let user_searches = filter (\<lambda>r. username r = uname) (map snd (search_cache cm))
      in slice_to limit (sort_key (\<lambda>x. - timestamp x) user_searches))"

section \<open>AI adapters and the query engine (utils.py)\<close>

text \<open>
  The embedding and chat services are external; their answers are parameters. The
  embedding request is determined by the route the provider selects, the model name and
  the cleaned text. A chat request is determined by the system prompt (one of the two
  fixed prompts of the engine), the results listed in the context block, the question and
  the token limit; the text rendering of the context block is not modelled. A chat
  service may answer with no content (\<open>None\<close>). \<open>get_ai_client\<close> builds a client for
  the five known providers only and looks the provider up in the client table, so with
  any other provider \<open>chat_completion\<close> leaves with the \<open>KeyError\<close> of that lookup, which
  stands before its \<open>try\<close> block.
\<close>

datatype embed_route = OpenAICompatible | GeminiEmbedContent | OpenAIFallback

datatype system_prompt = CachePrompt | KnowledgeBasePrompt

record chat_request =
  system_msg :: system_prompt
  context_results :: "scored_result list"
  question :: string
  max_tokens :: int

record adapters =
  similarity :: "real list \<Rightarrow> real list \<Rightarrow> real"
  embeddings_api :: "embed_route \<Rightarrow> string \<Rightarrow> string \<Rightarrow> exn + real list"
  chat_api :: "string \<Rightarrow> chat_request \<Rightarrow> exn + string option"

text \<open>
  The state the engine works on: the vector store, the cache manager, and the requests
  sent so far to the embedding service, to the store's search and to \<open>chat_completion\<close>.
\<close>

record world =
  store :: qdrant
  cache :: CacheManager
  embed_calls :: "(embed_route \<times> string \<times> string) list"
  search_calls :: "(string \<times> qfilter \<times> int \<times> real option) list"
  chat_calls :: "chat_request list"

definition openai_style :: "string list" where
  "openai_style = [''OpenAI'', ''GitHub'', ''Custom'']"

definition chat_completion ::
  "config \<Rightarrow> adapters \<Rightarrow> chat_request \<Rightarrow> world \<Rightarrow> (exn + string option) \<times> world" where
  "chat_completion cfg ad req w =
     (let w1 = w\<lparr>chat_calls := chat_calls w @ [req]\<rparr>
      in if provider cfg \<in> set openai_style \<or> provider cfg = ''Gemini'' \<or> provider cfg = ''Claude''
         then (case chat_api ad (provider cfg) req of
                 Inl e \<Rightarrow>
                   (Inl (Exn AIServiceError
                      (''Chat completion failed with '' @ provider cfg @ '': '' @ str_exn e)), w1)
               | Inr reply \<Rightarrow> (Inr reply, w1))
         else (Inl (Exn KeyError (provider cfg)), w1))"

definition embed_route_of :: "config \<Rightarrow> embed_route \<times> string" where
  "embed_route_of cfg =
     (if provider cfg \<in> set openai_style then (OpenAICompatible, embedding_model cfg)
      else if provider cfg = ''Gemini'' then (GeminiEmbedContent, embedding_model cfg)
      else (OpenAIFallback, ''text-embedding-ada-002''))"

definition generate_embedding ::
  "config \<Rightarrow> adapters \<Rightarrow> string \<Rightarrow> world \<Rightarrow> (exn + real list) \<times> world" where
  "generate_embedding cfg ad txt w =
     (let cleaned_text = strip txt;
          failed = (\<lambda>e. Inl (Exn AIServiceError
                     (''Failed to generate embedding with '' @ provider cfg @ '': '' @ str_exn e)))
      in if cleaned_text = [] then (failed (Exn ValueError ''Text cannot be empty''), w)
         else
           (let cleaned_text = (if length cleaned_text > 8000 then take 8000 cleaned_text
                                else cleaned_text);
                (route, m) = embed_route_of cfg;
                w1 = w\<lparr>embed_calls := embed_calls w @ [(route, m, cleaned_text)]\<rparr>
            in case embeddings_api ad route m cleaned_text of
                 Inl e \<Rightarrow> (failed e, w1)
               | Inr embedding \<Rightarrow> (Inr embedding, w1)))"

definition reserved_keys :: "string list" where
  "reserved_keys = [''text'', ''username'', ''timestamp'', ''content_type'']"

definition format_hit :: "scored_point \<Rightarrow> scored_result" where
  "format_hit hit =
     \<lparr>r_id = hit_id hit,
      r_score = hit_score hit,
      r_text = dict_get (hit_payload hit) ''text'' (PStr []),
      r_timestamp = dict_get (hit_payload hit) ''timestamp'' (PNum 0),
      r_content_type = dict_get (hit_payload hit) ''content_type'' (PStr ''general''),
      r_metadata = filter (\<lambda>kv. fst kv \<notin> set reserved_keys) (hit_payload hit)\<rparr>"

definition user_filter :: "string \<Rightarrow> qfilter" where
  "user_filter uname = Filter [FieldCondition ''username'' (PStr uname)]"

text \<open>
  The two search functions differ in the score threshold only: the enhanced one passes
  \<open>0.3\<close>, the plain one none. \<open>search_with\<close> is their common body.
\<close>

definition search_with ::
  "real option \<Rightarrow> config \<Rightarrow> adapters \<Rightarrow> real list \<Rightarrow> string \<Rightarrow> int \<Rightarrow> world \<Rightarrow>
   (exn + scored_result list) \<times> world" where
  "search_with th cfg ad query_embedding uname limit w =
     (let collection_name = qdrant_collection_name cfg;
          failed = (\<lambda>e. Inl (Exn DatabaseError
                     (''Failed to search vector database: '' @ str_exn e)));
          (err, q1) = ensure_collection_exists cfg (store w) collection_name
      in case err of
           Some e \<Rightarrow> (failed e, w\<lparr>store := q1\<rparr>)
         | None \<Rightarrow>
             (let w1 = w\<lparr>store := q1,
                         search_calls := search_calls w @
                           [(collection_name, user_filter uname, limit, th)]\<rparr>
              in case qdrant_search (similarity ad) q1 collection_name query_embedding
                        (user_filter uname) limit th of
                   Inl e \<Rightarrow> (failed e, w1)
                 | Inr search_result \<Rightarrow> (Inr (map format_hit search_result), w1)))"

definition search_vector_db_enhanced ::
  "config \<Rightarrow> adapters \<Rightarrow> real list \<Rightarrow> string \<Rightarrow> int \<Rightarrow> world \<Rightarrow>
   (exn + scored_result list) \<times> world" where
  "search_vector_db_enhanced = search_with (Some (3 / 10))"

definition search_vector_db ::
  "config \<Rightarrow> adapters \<Rightarrow> real list \<Rightarrow> string \<Rightarrow> int \<Rightarrow> world \<Rightarrow>
   (exn + scored_result list) \<times> world" where
  "search_vector_db = search_with None"

text \<open>
  The state in which the collection holds the points of one owner only; it serves to
  say that the points of other owners have no influence on a search.
\<close>

definition owned_by :: "string \<Rightarrow> point \<Rightarrow> bool" where
  "owned_by u p = (map_of (p_payload p) ''username'' = Some (PStr u))"

definition without_other_owners :: "config \<Rightarrow> string \<Rightarrow> world \<Rightarrow> world" where
  "without_other_owners cfg u w =
     (case store w (qdrant_collection_name cfg) of
        None \<Rightarrow> w
      | Some c \<Rightarrow>
          w\<lparr>store := (store w)(qdrant_collection_name cfg \<mapsto>
                        c\<lparr>points := filter (owned_by u) (points c)\<rparr>)\<rparr>)"

definition no_info_message :: string where
  "no_info_message =
     ''I couldn't find any relevant information in your knowledge base for this query.''"

definition none_has_no_len :: exn where
  "none_has_no_len = Exn TypeError ''object of type 'NoneType' has no len()''"

text \<open>
  The tail both paths share: call \<open>chat_completion\<close> with 800 tokens and return its text.
  The log line after the call takes \<open>len(result)\<close>, which raises on \<open>None\<close>.
\<close>

definition answer_with ::
  "config \<Rightarrow> adapters \<Rightarrow> system_prompt \<Rightarrow> scored_result list \<Rightarrow> string \<Rightarrow> world \<Rightarrow>
   (exn + string) \<times> world" where
  "answer_with cfg ad prompt rs q w =
     (case chat_completion cfg ad
             \<lparr>system_msg = prompt, context_results = rs, question = q, max_tokens = 800\<rparr> w of
        (Inl e, w1) \<Rightarrow> (Inl e, w1)
      | (Inr None, w1) \<Rightarrow> (Inl none_has_no_len, w1)
      | (Inr (Some reply), w1) \<Rightarrow> (Inr reply, w1))"

definition comprehensive_words :: "string list" where
  "comprehensive_words = [''all'', ''list'', ''every'', ''entire'', ''complete'']"

text \<open>Questions that ask for everything search with twice the limit, at most 20.\<close>

definition search_limit :: "string \<Rightarrow> int \<Rightarrow> int" where
  "search_limit q limit =
     (if list_ex (\<lambda>word. py_in word (lower q)) comprehensive_words
      then min (limit * 2) 20 else limit)"

definition kb_failed :: "exn \<Rightarrow> exn" where
  "kb_failed e = Exn AIServiceError (''Failed to query knowledge base: '' @ str_exn e)"

definition query_knowledge_base ::
  "config \<Rightarrow> adapters \<Rightarrow> string \<Rightarrow> string \<Rightarrow> int \<Rightarrow> real \<Rightarrow> world \<Rightarrow> (exn + string) \<times> world" where
  "query_knowledge_base cfg ad q uname limit now w =
     (let limit = search_limit q limit
      in case generate_embedding cfg ad q w of
           (Inl e, w1) \<Rightarrow> (Inl (kb_failed e), w1)
         | (Inr query_embedding, w1) \<Rightarrow>
             (case search_vector_db_enhanced cfg ad query_embedding uname limit w1 of
                (Inl e, w2) \<Rightarrow> (Inl (kb_failed e), w2)
              | (Inr search_results, w2) \<Rightarrow>
                  if search_results = [] then (Inr no_info_message, w2)
                  else
                    (case cache_search_result q search_results uname now (cache w2) of
                       (Some e, cm) \<Rightarrow> (Inl (kb_failed e), w2\<lparr>cache := cm\<rparr>)
                     | (None, cm) \<Rightarrow>
                         (case answer_with cfg ad KnowledgeBasePrompt search_results q
                                 (w2\<lparr>cache := cm\<rparr>) of
                            (Inl e, w3) \<Rightarrow> (Inl (kb_failed e), w3)
                          | (Inr reply, w3) \<Rightarrow> (Inr reply, w3)))))"

text \<open>
  The fuzzy test of \<open>search_cache_first\<close> and its loop over the cached searches: the
  body returns at the first entry that passes the test, so the loop finds that entry.
\<close>

definition is_cache_hit :: "string \<Rightarrow> SearchResult \<Rightarrow> bool" where
  "is_cache_hit q cached_search =
     (lower (query cached_search) = lower q \<or>
      (length q > 10 \<and> py_in (lower q) (lower (query cached_search))) \<or>
      (length (query cached_search) > 10 \<and> py_in (lower (query cached_search)) (lower q)))"

fun first_cache_hit :: "string \<Rightarrow> SearchResult list \<Rightarrow> SearchResult option" where
  "first_cache_hit q [] = None"
| "first_cache_hit q (cached_search # rest) =
     (if is_cache_hit q cached_search then Some cached_search else first_cache_hit q rest)"

definition cache_first_failed :: "exn \<Rightarrow> exn" where
  "cache_first_failed e =
     Exn AIServiceError (''Failed to search with cache-first logic: '' @ str_exn e)"

definition search_cache_first ::
  "config \<Rightarrow> adapters \<Rightarrow> string \<Rightarrow> string \<Rightarrow> int \<Rightarrow> real \<Rightarrow> world \<Rightarrow> (exn + string) \<times> world" where
  "search_cache_first cfg ad q uname limit now w =
     (let cached_searches = get_cached_searches uname 20 (cache w)
      in case first_cache_hit q cached_searches of
           Some cached_search \<Rightarrow>
             (case cache_search_result q (results cached_search) uname now (cache w) of
                (Some e, cm) \<Rightarrow> (Inl (cache_first_failed e), w\<lparr>cache := cm\<rparr>)
              | (None, cm) \<Rightarrow>
                  if results cached_search \<noteq> []
                  then (case answer_with cfg ad CachePrompt (results cached_search) q
                               (w\<lparr>cache := cm\<rparr>) of
                          (Inl e, w1) \<Rightarrow> (Inl (cache_first_failed e), w1)
                        | (Inr reply, w1) \<Rightarrow> (Inr reply, w1))
                  else (Inr no_info_message, w\<lparr>cache := cm\<rparr>))
         | None \<Rightarrow>
             (case query_knowledge_base cfg ad q uname limit now w of
                (Inl e, w1) \<Rightarrow> (Inl (cache_first_failed e), w1)
              | (Inr reply, w1) \<Rightarrow> (Inr reply, w1)))"

section \<open>Cache invariant and sample states\<close>

text \<open>
  Every binding of the cache is filed under the key built from its own owner and query,
  and a dictionary has each key once. Both loading and \<open>cache_search_result\<close> keep this.
\<close>

definition keys_consistent :: "search_cache_t \<Rightarrow> bool" where
  "keys_consistent od =
     (distinct (map fst od) \<and>
      list_all (\<lambda>kv. fst kv = cache_key (username (snd kv)) (query (snd kv))) od)"

text \<open>Sample data for the concrete instances below.\<close>

definition demo_result :: scored_result where
  "demo_result =
     \<lparr>r_id = ''p1'', r_score = 1 / 2, r_text = PStr ''Paris is the capital of France'',
      r_timestamp = PNum 1, r_content_type = PStr ''general'', r_metadata = []\<rparr>"

definition demo_entry :: "string \<Rightarrow> string \<Rightarrow> real \<Rightarrow> string \<times> SearchResult" where
  "demo_entry u q t =
     (cache_key u q, \<lparr>query = q, results = [demo_result], timestamp = t, username = u\<rparr>)"

definition demo_full_cache :: CacheManager where
  "demo_full_cache =
     \<lparr>max_search_cache = 10,
      search_cache =
        [demo_entry ''bob'' ''b0'' 0, demo_entry ''alice'' ''a1'' 1,
         demo_entry ''alice'' ''a2'' 2, demo_entry ''alice'' ''a3'' 3,
         demo_entry ''alice'' ''a4'' 4, demo_entry ''alice'' ''a5'' 5,
         demo_entry ''alice'' ''a6'' 6, demo_entry ''alice'' ''a7'' 7,
         demo_entry ''alice'' ''a8'' 8, demo_entry ''alice'' ''a9'' 9]\<rparr>"

definition demo_small_cache :: CacheManager where
  "demo_small_cache =
     \<lparr>max_search_cache = 3,
      search_cache = [demo_entry ''alice'' ''x'' 1, demo_entry ''alice'' ''y'' 2,
                      demo_entry ''alice'' ''z'' 3]\<rparr>"

definition demo_fuzzy_cache :: CacheManager where
  "demo_fuzzy_cache =
     \<lparr>max_search_cache = 10,
      search_cache =
        [demo_entry ''alice'' ''python tutorials'' 1,
         demo_entry ''alice'' ''Python Tutorials advanced'' 2,
         demo_entry ''alice'' ''hi'' 3]\<rparr>"

definition demo_cfg :: config where
  "demo_cfg =
     \<lparr>provider = ''OpenAI'', model = ''gpt-3.5-turbo'',
      embedding_model = ''text-embedding-ada-002'',
      qdrant_collection_name = ''recall_documents''\<rparr>"

definition demo_adapters :: adapters where
  "demo_adapters =
     \<lparr>similarity = (\<lambda>a b. 1 / 2),
      embeddings_api = (\<lambda>route m t. Inr (replicate 1536 1)),
      chat_api = (\<lambda>p req. Inr (Some ''Paris.''))\<rparr>"

definition failing_adapters :: adapters where
  "failing_adapters =
     \<lparr>similarity = (\<lambda>a b. 1 / 2),
      embeddings_api = (\<lambda>route m t. Inl (Exn ExternalError ''Connection error.'')),
      chat_api = (\<lambda>p req. Inl (Exn ExternalError ''Connection error.''))\<rparr>"

definition demo_point :: "string \<Rightarrow> string \<Rightarrow> string \<Rightarrow> point" where
  "demo_point i owner txt =
     \<lparr>p_id = i, p_vector = replicate 1536 1,
      p_payload = [(''text'', PStr txt), (''username'', PStr owner), (''timestamp'', PNum 1),
                   (''content_type'', PStr ''general'')]\<rparr>"

definition demo_store :: "int \<Rightarrow> point list \<Rightarrow> qdrant" where
  "demo_store dims ps =
     [''recall_documents'' \<mapsto> \<lparr>vectors_size = dims, points = ps, payload_indexes = []\<rparr>]"

definition demo_world :: "qdrant \<Rightarrow> CacheManager \<Rightarrow> world" where
  "demo_world q cm =
     \<lparr>store = q, cache = cm, embed_calls = [], search_calls = [], chat_calls = []\<rparr>"

definition demo_owner_world :: "point list \<Rightarrow> world" where
  "demo_owner_world ps =
     demo_world (demo_store 1536 ps) \<lparr>max_search_cache = 10, search_cache = []\<rparr>"

section \<open>The eviction loop and the put operation\<close>

lemma evict_oldest_drop:
  "0 \<le> mx \<Longrightarrow> evict_oldest mx od = (None, drop (length od - nat mx) od)"
proof (induction od)
  case Nil
  then show ?case by simp
next
  case (Cons kv od)
  show ?case
  proof (cases "int (length (kv # od)) > mx")
    case True
    then have "length (kv # od) - nat mx = Suc (length od - nat mx)"
      using Cons.prems by simp
    with True Cons show ?thesis by simp
  next
    case False
    then have "length (kv # od) - nat mx = 0" by simp
    with False show ?thesis by simp
  qed
qed

lemma evict_oldest_negative:
  "mx < 0 \<Longrightarrow> evict_oldest mx od = (Some (Exn KeyError ''dictionary is empty''), [])"
  by (induction od) auto

lemma od_set_fresh: "\<not> od_contains k od \<Longrightarrow> od_set k v od = od @ [(k, v)]"
  by (simp add: od_set_def)

lemma od_del_not_contains: "\<not> od_contains k (od_del k od)"
  by (auto simp: od_contains_def od_del_def)

lemma od_del_absent: "\<not> od_contains k od \<Longrightarrow> od_del k od = od"
  by (induction od) (auto simp: od_contains_def od_del_def)

lemma cache_search_result_eq:
  "cache_search_result q rs u now cm =
     (case evict_oldest (max_search_cache cm)
             (od_del (cache_key u q) (search_cache cm) @
                [(cache_key u q, \<lparr>query = q, results = rs, timestamp = now, username = u\<rparr>)]) of
        (err, od3) \<Rightarrow> (err, cm\<lparr>search_cache := od3\<rparr>))"
  by (simp add: cache_search_result_def Let_def od_set_fresh od_del_not_contains od_del_absent)

lemma cache_search_result_nonneg:
  assumes "0 \<le> max_search_cache cm"
  shows "cache_search_result q rs u now cm =
     (None, cm\<lparr>search_cache :=
        drop (Suc (length (od_del (cache_key u q) (search_cache cm))) - nat (max_search_cache cm))
          (od_del (cache_key u q) (search_cache cm) @
             [(cache_key u q, \<lparr>query = q, results = rs, timestamp = now, username = u\<rparr>)])\<rparr>)"
  using assms by (simp add: cache_search_result_eq evict_oldest_drop)

lemma cache_search_result_full:
  assumes "search_cache cm = oldest # rest"
    and "int (length (search_cache cm)) = max_search_cache cm"
    and "\<not> od_contains (cache_key u q) (search_cache cm)"
  shows "cache_search_result q rs u now cm =
           (None, cm\<lparr>search_cache := rest @
              [(cache_key u q, \<lparr>query = q, results = rs, timestamp = now, username = u\<rparr>)]\<rparr>)"
proof -
  have nonneg: "0 \<le> max_search_cache cm" using assms(2) by linarith
  have "od_del (cache_key u q) (search_cache cm) = oldest # rest"
    using od_del_absent [OF assms(3)] assms(1) by simp
  moreover have "nat (max_search_cache cm) = Suc (length rest)" using assms(1,2) by auto
  ultimately show ?thesis by (simp add: cache_search_result_nonneg [OF nonneg])
qed

lemma od_del_length_distinct:
  "distinct (map fst od) \<Longrightarrow> od_contains k od \<Longrightarrow> Suc (length (od_del k od)) = length od"
proof (induction od)
  case Nil
  then show ?case by (simp add: od_contains_def)
next
  case (Cons kv od)
  show ?case
  proof (cases "fst kv = k")
    case True
    with Cons.prems have "\<not> od_contains k od" by (auto simp: od_contains_def)
    then have "od_del k od = od" by (rule od_del_absent)
    with True show ?thesis by (simp add: od_del_def)
  next
    case False
    with Cons.prems have "od_contains k od" "distinct (map fst od)"
      by (auto simp: od_contains_def)
    with Cons.IH False show ?thesis by (simp add: od_del_def)
  qed
qed

lemma sorted_put:
  fixes od :: search_cache_t
  assumes "sorted (map (\<lambda>kv. timestamp (snd kv)) od)"
    and "\<forall>kv \<in> set od. timestamp (snd kv) \<le> now"
  shows "sorted (map (\<lambda>kv. timestamp (snd kv))
           (drop n (od_del k od @ [(k', \<lparr>query = q, results = rs, timestamp = now, username = u\<rparr>)])))"
proof -
  have "sorted (map (\<lambda>kv. timestamp (snd kv)) (od_del k od))"
    unfolding od_del_def using assms(1) by (rule sorted_filter)
  moreover have "\<forall>kv \<in> set (od_del k od). timestamp (snd kv) \<le> now"
    using assms(2) by (simp add: od_del_def)
  ultimately have "sorted (map (\<lambda>kv. timestamp (snd kv))
      (od_del k od @ [(k', \<lparr>query = q, results = rs, timestamp = now, username = u\<rparr>)]))"
    by (auto simp: sorted_append)
  then show ?thesis
    unfolding drop_map [symmetric] by (rule sorted_wrt_drop)
qed

text \<open>
  C2. With a capacity that is not negative, \<open>cache_search_result\<close> returns without an
  exception and leaves at most \<open>max_search_cache\<close> entries. The cache afterwards is the
  old one without the binding of the key, followed by the new binding, cut from the front
  down to the capacity: a put of a cached key moves it to the most recent end (and below
  or at capacity evicts nothing), and a put of a new key into a cache of exactly
  \<open>max_search_cache\<close> entries drops exactly the first entry. The list order is the order of
  the puts: when the timestamps ascend along the cache and \<open>now\<close> is not before them, they
  ascend afterwards too, and no evicted entry is newer than an entry that stays. So the
  entry that goes is the least recently inserted or touched one.
\<close>

theorem cache_capacity_bound:
  assumes "0 \<le> max_search_cache cm"
  shows "case cache_search_result q rs u now cm of
           (err, cm') \<Rightarrow>
             err = None \<and> max_search_cache cm' = max_search_cache cm \<and>
             int (length (search_cache cm')) \<le> max_search_cache cm \<and>
             (\<forall>oldest rest.
                search_cache cm = oldest # rest \<and>
                int (length (search_cache cm)) = max_search_cache cm \<and>
                \<not> od_contains (cache_key u q) (search_cache cm) \<longrightarrow>
                search_cache cm' =
                  rest @ [(cache_key u q,
                           \<lparr>query = q, results = rs, timestamp = now, username = u\<rparr>)]) \<and>
             search_cache cm' =
               drop (Suc (length (od_del (cache_key u q) (search_cache cm))) -
                     nat (max_search_cache cm))
                 (od_del (cache_key u q) (search_cache cm) @
                  [(cache_key u q,
                    \<lparr>query = q, results = rs, timestamp = now, username = u\<rparr>)]) \<and>
             (od_contains (cache_key u q) (search_cache cm) \<and>
              distinct (map fst (search_cache cm)) \<and>
              int (length (search_cache cm)) \<le> max_search_cache cm \<longrightarrow>
              search_cache cm' =
                filter (\<lambda>kv. fst kv \<noteq> cache_key u q) (search_cache cm) @
                [(cache_key u q,
                  \<lparr>query = q, results = rs, timestamp = now, username = u\<rparr>)] \<and>
              length (search_cache cm') = length (search_cache cm)) \<and>
             (sorted (map (\<lambda>kv. timestamp (snd kv)) (search_cache cm)) \<and>
              (\<forall>kv \<in> set (search_cache cm). timestamp (snd kv) \<le> now) \<longrightarrow>
              sorted (map (\<lambda>kv. timestamp (snd kv)) (search_cache cm')) \<and>
              (\<forall>kv \<in> set (search_cache cm').
                 \<forall>gone \<in> set (od_del (cache_key u q) (search_cache cm)) - set (search_cache cm').
                   timestamp (snd gone) \<le> timestamp (snd kv)))"
proof -
  let ?k = "cache_key u q"
  let ?new = "(?k, \<lparr>query = q, results = rs, timestamp = now, username = u\<rparr>)"
  let ?od = "od_del ?k (search_cache cm)"
  let ?n = "Suc (length ?od) - nat (max_search_cache cm)"
  define od3 where "od3 = drop ?n (?od @ [?new])"
  have res: "cache_search_result q rs u now cm = (None, cm\<lparr>search_cache := od3\<rparr>)"
    unfolding od3_def by (rule cache_search_result_nonneg [OF assms])
  have len: "int (length od3) \<le> max_search_cache cm"
    unfolding od3_def using assms by simp
  have evict: "od3 = rest @ [?new]"
    if a: "search_cache cm = oldest # rest \<and>
      int (length (search_cache cm)) = max_search_cache cm \<and>
      \<not> od_contains ?k (search_cache cm)" for oldest rest
  proof -
    from a have nc: "\<not> od_contains ?k (search_cache cm)" by blast
    from a have "?od = oldest # rest" using od_del_absent [OF nc] by simp
    moreover have "nat (max_search_cache cm) = Suc (length rest)" using a by auto
    ultimately show ?thesis unfolding od3_def by simp
  qed
  have touch: "od3 = filter (\<lambda>kv. fst kv \<noteq> ?k) (search_cache cm) @ [?new] \<and>
               length od3 = length (search_cache cm)"
    if a: "od_contains ?k (search_cache cm) \<and> distinct (map fst (search_cache cm)) \<and>
           int (length (search_cache cm)) \<le> max_search_cache cm"
  proof -
    from a have l: "Suc (length ?od) = length (search_cache cm)"
      using od_del_length_distinct [of "search_cache cm" ?k] by blast
    with a have "?n = 0" by linarith
    then have "od3 = ?od @ [?new]" unfolding od3_def by (simp only: drop_0)
    with l show ?thesis by (simp add: od_del_def)
  qed
  have order: "sorted (map (\<lambda>kv. timestamp (snd kv)) od3) \<and>
      (\<forall>kv \<in> set od3. \<forall>gone \<in> set ?od - set od3. timestamp (snd gone) \<le> timestamp (snd kv))"
    if a: "sorted (map (\<lambda>kv. timestamp (snd kv)) (search_cache cm)) \<and>
           (\<forall>kv \<in> set (search_cache cm). timestamp (snd kv) \<le> now)"
  proof -
    from a have s3: "sorted (map (\<lambda>kv. timestamp (snd kv)) od3)"
      unfolding od3_def using sorted_put [of "search_cache cm" now ?n ?k ?k q rs u] by blast
    have whole: "sorted (map (\<lambda>kv. timestamp (snd kv)) (take ?n (?od @ [?new]) @ od3))"
      unfolding od3_def append_take_drop_id
      using a sorted_put [of "search_cache cm" now 0 ?k ?k q rs u] by simp
    have "timestamp (snd gone) \<le> timestamp (snd kv)"
      if kv: "kv \<in> set od3" and gone: "gone \<in> set ?od - set od3" for kv gone
    proof -
      have "set ?od \<subseteq> set (take ?n (?od @ [?new])) \<union> set od3"
        unfolding od3_def using set_append [of "take ?n (?od @ [?new])" "drop ?n (?od @ [?new])"]
        by (simp only: append_take_drop_id) auto
      with gone have "gone \<in> set (take ?n (?od @ [?new]))" by blast
      with whole kv show ?thesis by (auto simp: sorted_append)
    qed
    with s3 show ?thesis by blast
  qed
  show ?thesis
    unfolding res prod.case od3_def [symmetric]
    using len evict touch order by auto
qed

theorem cache_capacity_bound_witness:
  "0 \<le> max_search_cache demo_full_cache \<and>
   cache_search_result ''a10'' [demo_result] ''alice'' 10 demo_full_cache =
     (None, \<lparr>max_search_cache = 10,
             search_cache = tl (search_cache demo_full_cache) @
                            [demo_entry ''alice'' ''a10'' 10]\<rparr>) \<and>
   length (search_cache (snd (cache_search_result ''a10'' [demo_result] ''alice'' 10
                                demo_full_cache))) = 10 \<and>
   0 \<le> max_search_cache demo_small_cache \<and>
   search_cache (snd (cache_search_result ''x'' [demo_result] ''alice'' 4 demo_small_cache)) =
     [demo_entry ''alice'' ''y'' 2, demo_entry ''alice'' ''z'' 3, demo_entry ''alice'' ''x'' 4] \<and>
   search_cache (snd (cache_search_result ''w'' [demo_result] ''alice'' 5
      (snd (cache_search_result ''x'' [demo_result] ''alice'' 4 demo_small_cache)))) =
     [demo_entry ''alice'' ''z'' 3, demo_entry ''alice'' ''x'' 4, demo_entry ''alice'' ''w'' 5]"
proof -
  have h: "0 \<le> max_search_cache demo_full_cache"
    by (simp add: demo_full_cache_def)
  have nc: "\<not> od_contains (cache_key ''alice'' ''a10'') (search_cache demo_full_cache)"
    by (simp add: demo_full_cache_def demo_entry_def cache_key_def od_contains_def)
  obtain err cm' where r:
    "cache_search_result ''a10'' [demo_result] ''alice'' 10 demo_full_cache = (err, cm')"
    by (cases "cache_search_result ''a10'' [demo_result] ''alice'' 10 demo_full_cache")
  from cache_capacity_bound [OF h, where q = "''a10''" and rs = "[demo_result]"
         and u = "''alice''" and now = 10] r
  have e: "err = None" and m: "max_search_cache cm' = 10"
    and c: "search_cache cm' =
              tl (search_cache demo_full_cache) @ [demo_entry ''alice'' ''a10'' 10]"
    using nc by (simp_all add: demo_full_cache_def demo_entry_def)
  from m c have "cm' = \<lparr>max_search_cache = 10,
      search_cache = tl (search_cache demo_full_cache) @ [demo_entry ''alice'' ''a10'' 10]\<rparr>"
    by (cases cm') simp
  with h r e c have full: "0 \<le> max_search_cache demo_full_cache \<and>
   cache_search_result ''a10'' [demo_result] ''alice'' 10 demo_full_cache =
     (None, \<lparr>max_search_cache = 10,
             search_cache = tl (search_cache demo_full_cache) @
                            [demo_entry ''alice'' ''a10'' 10]\<rparr>) \<and>
   length (search_cache (snd (cache_search_result ''a10'' [demo_result] ''alice'' 10
                                demo_full_cache))) = 10"
    by (simp add: demo_full_cache_def)
  let ?c1 = "snd (cache_search_result ''x'' [demo_result] ''alice'' 4 demo_small_cache)"
  have hs: "0 \<le> max_search_cache demo_small_cache"
    by (simp add: demo_small_cache_def)
  have touched: "od_contains (cache_key ''alice'' ''x'') (search_cache demo_small_cache) \<and>
      distinct (map fst (search_cache demo_small_cache)) \<and>
      int (length (search_cache demo_small_cache)) \<le> max_search_cache demo_small_cache"
    by (simp add: demo_small_cache_def demo_entry_def cache_key_def od_contains_def)
  from cache_capacity_bound [OF hs, where q = "''x''" and rs = "[demo_result]"
         and u = "''alice''" and now = 4] touched
  have m1: "max_search_cache ?c1 = max_search_cache demo_small_cache"
    and s1: "search_cache ?c1 =
       filter (\<lambda>kv. fst kv \<noteq> cache_key ''alice'' ''x'') (search_cache demo_small_cache) @
       [(cache_key ''alice'' ''x'',
         \<lparr>query = ''x'', results = [demo_result], timestamp = 4, username = ''alice''\<rparr>)]"
    by (auto split: prod.splits)
  from s1 have c1: "search_cache ?c1 =
     [demo_entry ''alice'' ''y'' 2, demo_entry ''alice'' ''z'' 3, demo_entry ''alice'' ''x'' 4]"
    by (simp add: demo_small_cache_def demo_entry_def cache_key_def)
  from m1 have hs1: "0 \<le> max_search_cache ?c1" by (simp add: demo_small_cache_def)
  have atcap: "search_cache ?c1 = demo_entry ''alice'' ''y'' 2 #
        [demo_entry ''alice'' ''z'' 3, demo_entry ''alice'' ''x'' 4] \<and>
      int (length (search_cache ?c1)) = max_search_cache ?c1 \<and>
      \<not> od_contains (cache_key ''alice'' ''w'') (search_cache ?c1)"
    unfolding c1 m1
    by (simp add: demo_small_cache_def demo_entry_def cache_key_def od_contains_def)
  from cache_capacity_bound [OF hs1, where q = "''w''" and rs = "[demo_result]"
         and u = "''alice''" and now = 5] atcap
  have "search_cache (snd (cache_search_result ''w'' [demo_result] ''alice'' 5 ?c1)) =
     [demo_entry ''alice'' ''z'' 3, demo_entry ''alice'' ''x'' 4] @
     [(cache_key ''alice'' ''w'',
       \<lparr>query = ''w'', results = [demo_result], timestamp = 5, username = ''alice''\<rparr>)]"
    by (auto split: prod.splits)
  then have c2: "search_cache (snd (cache_search_result ''w'' [demo_result] ''alice'' 5 ?c1)) =
     [demo_entry ''alice'' ''z'' 3, demo_entry ''alice'' ''x'' 4, demo_entry ''alice'' ''w'' 5]"
    by (simp add: demo_entry_def)
  from full hs c1 c2 show ?thesis by blast
qed

section \<open>The cache key\<close>

lemma split_at_separator:
  "c \<notin> set u1 \<Longrightarrow> c \<notin> set u2 \<Longrightarrow> u1 @ c # q1 = u2 @ c # q2 \<Longrightarrow> u1 = u2 \<and> q1 = q2"
proof (induction u1 arbitrary: u2)
  case Nil
  then show ?case by (cases u2) auto
next
  case (Cons a u1)
  then show ?case by (cases u2) auto
qed

lemma cache_key_inj:
  "CHR '':'' \<notin> set u1 \<Longrightarrow> CHR '':'' \<notin> set u2 \<Longrightarrow>
   (cache_key u1 q1 = cache_key u2 q2) = (u1 = u2 \<and> q1 = q2)"
  using split_at_separator [of "CHR '':''" u1 u2 q1 q2] by (auto simp: cache_key_def)

text \<open>
  C6, as the claim states it: owner \<open>ab\<close> with query \<open>c\<close> and owner \<open>a\<close> with query \<open>bc\<close>
  would share one key. The code puts a colon between owner and query, so the two keys
  differ and both entries live in the cache side by side.
\<close>

theorem cache_key_no_collision_counterexample:
  "cache_key ''ab'' ''c'' = ''ab:c'' \<and> cache_key ''a'' ''bc'' = ''a:bc'' \<and>
   cache_key ''ab'' ''c'' \<noteq> cache_key ''a'' ''bc'' \<and>
   map fst (search_cache (snd (cache_search_result ''bc'' [] ''a'' 2
      (snd (cache_search_result ''c'' [] ''ab'' 1
         \<lparr>max_search_cache = 10, search_cache = []\<rparr>))))) = [''ab:c'', ''a:bc'']"
  by (simp add: cache_search_result_def cache_key_def od_contains_def od_set_def od_del_def)

text \<open>
  C6, amended. The key is owner, colon, query. Owners without a colon never collide: the
  key determines the pair. A collision needs a colon inside an owner: owner \<open>a:b\<close> with
  query \<open>c\<close> and owner \<open>a\<close> with query \<open>b:c\<close> share the key \<open>a:b:c\<close>, and the second put
  replaces the entry of the first.
\<close>

theorem cache_key_separator:
  "cache_key u q = u @ '':'' @ q \<and>
   (\<forall>u1 q1 u2 q2. CHR '':'' \<notin> set u1 \<and> CHR '':'' \<notin> set u2 \<longrightarrow>
      (cache_key u1 q1 = cache_key u2 q2) = (u1 = u2 \<and> q1 = q2)) \<and>
   cache_key ''a:b'' ''c'' = cache_key ''a'' ''b:c'' \<and>
   search_cache (snd (cache_search_result ''b:c'' [] ''a'' 2
      (snd (cache_search_result ''c'' [demo_result] ''a:b'' 1
         \<lparr>max_search_cache = 10, search_cache = []\<rparr>)))) =
     [(''a:b:c'', \<lparr>query = ''b:c'', results = [], timestamp = 2, username = ''a''\<rparr>)]"
proof -
  have "cache_key u q = u @ '':'' @ q" by (simp add: cache_key_def)
  moreover have "cache_key ''a:b'' ''c'' = cache_key ''a'' ''b:c''"
    by (simp add: cache_key_def)
  moreover have "search_cache (snd (cache_search_result ''b:c'' [] ''a'' 2
      (snd (cache_search_result ''c'' [demo_result] ''a:b'' 1
         \<lparr>max_search_cache = 10, search_cache = []\<rparr>)))) =
     [(''a:b:c'', \<lparr>query = ''b:c'', results = [], timestamp = 2, username = ''a''\<rparr>)]"
    by (simp add: cache_search_result_def cache_key_def od_contains_def od_set_def od_del_def)
  ultimately show ?thesis using cache_key_inj by blast
qed

theorem cache_key_separator_witness:
  "CHR '':'' \<notin> set ''alice'' \<and> CHR '':'' \<notin> set ''alic'' \<and>
   cache_key ''alice'' ''x'' \<noteq> cache_key ''alic'' ''ex''"
proof -
  have h: "CHR '':'' \<notin> set ''alice'' \<and> CHR '':'' \<notin> set ''alic''" by simp
  from cache_key_separator [of "[]" "[]"] h
  have "(cache_key ''alice'' ''x'' = cache_key ''alic'' ''ex'') = (''alice'' = ''alic'' \<and> ''x'' = ''ex'')"
    by blast
  with h show ?thesis by simp
qed

section \<open>The cache invariant\<close>

lemma keys_consistent_Nil: "keys_consistent []"
  by (simp add: keys_consistent_def)

lemma keys_consistent_filter: "keys_consistent od \<Longrightarrow> keys_consistent (filter P od)"
  by (auto simp: keys_consistent_def distinct_map_filter list_all_iff)

lemma keys_consistent_drop: "keys_consistent od \<Longrightarrow> keys_consistent (drop n od)"
  by (auto simp: keys_consistent_def distinct_drop list_all_iff simp flip: drop_map dest: in_set_dropD)

lemma keys_consistent_snoc:
  "keys_consistent od \<Longrightarrow> \<not> od_contains (cache_key (username e) (query e)) od \<Longrightarrow>
   keys_consistent (od @ [(cache_key (username e) (query e), e)])"
  by (auto simp: keys_consistent_def od_contains_def)

lemma keys_consistent_put:
  assumes "keys_consistent (search_cache cm)"
  shows "keys_consistent (search_cache (snd (cache_search_result q rs u now cm)))"
proof (cases "0 \<le> max_search_cache cm")
  case True
  let ?e = "\<lparr>query = q, results = rs, timestamp = now, username = u\<rparr>"
  have "keys_consistent (od_del (cache_key u q) (search_cache cm) @ [(cache_key u q, ?e)])"
    using keys_consistent_snoc [of "od_del (cache_key u q) (search_cache cm)" ?e]
      keys_consistent_filter [OF assms] od_del_not_contains
    by (simp add: od_del_def)
  then show ?thesis
    unfolding cache_search_result_nonneg [OF True]
    by (simp add: keys_consistent_drop del: drop_append)
next
  case False
  then show ?thesis
    by (simp add: cache_search_result_eq evict_oldest_negative keys_consistent_Nil)
qed

lemma keys_consistent_od_set:
  assumes "keys_consistent od"
  shows "keys_consistent (od_set (cache_key (username e) (query e)) e od)"
proof (cases "od_contains (cache_key (username e) (query e)) od")
  case False
  with assms show ?thesis by (simp add: od_set_fresh keys_consistent_snoc)
next
  case True
  let ?k = "cache_key (username e) (query e)"
  let ?g = "\<lambda>kv. if fst kv = ?k then (?k, e) else kv"
  have m: "map fst (map ?g od) = map fst od"
    by (induction od) auto
  from assms have "distinct (map fst od)" by (simp add: keys_consistent_def)
  then have d: "distinct (map fst (map ?g od))" by (simp only: m)
  from assms have
    "list_all (\<lambda>kv. fst kv = cache_key (username (snd kv)) (query (snd kv))) (map ?g od)"
    by (auto simp: keys_consistent_def list_all_iff)
  with d have "keys_consistent (map ?g od)" unfolding keys_consistent_def by blast
  with True show ?thesis by (simp add: od_set_def)
qed

lemma keys_consistent_load:
  "keys_consistent od \<Longrightarrow> keys_consistent (load_search_cache items od)"
  unfolding load_search_cache_def
  by (induction items arbitrary: od) (simp_all add: keys_consistent_od_set)

lemma keys_consistent_entry:
  "keys_consistent od \<Longrightarrow> (k, e) \<in> set od \<Longrightarrow> k = cache_key (username e) (query e)"
  by (auto simp: keys_consistent_def list_all_iff)

lemma get_cached_searches_set:
  "set (get_cached_searches u limit cm) \<subseteq> {e \<in> snd ` set (search_cache cm). username e = u}"
  by (auto simp: get_cached_searches_def slice_to_def Let_def dest!: in_set_takeD)

lemma get_cached_searches_all:
  assumes a: "int (length (search_cache cm)) \<le> limit"
  shows "set (get_cached_searches u limit cm) =
           {e \<in> snd ` set (search_cache cm). username e = u}"
proof -
  let ?xs = "filter (\<lambda>r. username r = u) (map snd (search_cache cm))"
  have l1: "length ?xs \<le> length (search_cache cm)"
    by (metis length_filter_le length_map)
  have l2: "length (search_cache cm) \<le> nat limit" using a by linarith
  from l1 l2 have "length (sort_key (\<lambda>x. - timestamp x) ?xs) \<le> nat limit"
    by (simp only: length_sort)
  then have "take (nat limit) (sort_key (\<lambda>x. - timestamp x) ?xs) = sort_key (\<lambda>x. - timestamp x) ?xs"
    by (rule take_all)
  moreover have "0 \<le> limit" using a by linarith
  ultimately have "get_cached_searches u limit cm = sort_key (\<lambda>x. - timestamp x) ?xs"
    by (simp only: get_cached_searches_def slice_to_def Let_def if_True)
  then show ?thesis by auto
qed

section \<open>Eviction across owners\<close>

text \<open>
  C9. The bound counts the entries of all owners. In a full cache whose oldest entry
  belongs to another owner, a put of a new key by owner \<open>u\<close> evicts that entry: before the
  put it is among the other owner's cached searches, afterwards it is in the cache no
  more.
\<close>

theorem eviction_is_global:
  assumes "search_cache cm = (k0, e0) # rest"
    and "int (length (search_cache cm)) = max_search_cache cm"
    and "keys_consistent (search_cache cm)"
    and "username e0 \<noteq> u"
    and "\<not> od_contains (cache_key u q) (search_cache cm)"
  shows "cache_search_result q rs u now cm =
           (None, cm\<lparr>search_cache := rest @
              [(cache_key u q, \<lparr>query = q, results = rs, timestamp = now, username = u\<rparr>)]\<rparr>) \<and>
         e0 \<in> set (get_cached_searches (username e0) (max_search_cache cm) cm) \<and>
         e0 \<notin> snd ` set (search_cache (snd (cache_search_result q rs u now cm))) \<and>
         e0 \<notin> set (get_cached_searches (username e0) limit
                      (snd (cache_search_result q rs u now cm)))"
proof -
  let ?new = "(cache_key u q, \<lparr>query = q, results = rs, timestamp = now, username = u\<rparr>)"
  let ?cm' = "cm\<lparr>search_cache := rest @ [?new]\<rparr>"
  have r: "cache_search_result q rs u now cm = (None, ?cm')"
    by (rule cache_search_result_full [OF assms(1,2,5)])
  have before: "e0 \<in> set (get_cached_searches (username e0) (max_search_cache cm) cm)"
    using get_cached_searches_all [of cm "max_search_cache cm" "username e0"] assms(1,2)
    by force
  have k0: "k0 = cache_key (username e0) (query e0)"
    using keys_consistent_entry [OF assms(3), of k0 e0] assms(1) by simp
  have "e0 \<notin> snd ` set rest"
  proof
    assume "e0 \<in> snd ` set rest"
    then obtain k where kin: "(k, e0) \<in> set rest" by auto
    then have "k = k0"
      using keys_consistent_entry [OF assms(3), of k e0] assms(1) k0 by simp
    with kin have "k0 \<in> fst ` set rest" by force
    with assms(1,3) show False by (simp add: keys_consistent_def)
  qed
  then have gone: "e0 \<notin> snd ` set (search_cache ?cm')"
    using assms(4) by auto
  then have "e0 \<notin> set (get_cached_searches (username e0) limit ?cm')"
    using get_cached_searches_set [of "username e0" limit ?cm'] by blast
  with r before gone show ?thesis by simp
qed

theorem eviction_is_global_witness:
  "search_cache demo_full_cache =
     (cache_key ''bob'' ''b0'', snd (demo_entry ''bob'' ''b0'' 0)) # tl (search_cache demo_full_cache) \<and>
   int (length (search_cache demo_full_cache)) = max_search_cache demo_full_cache \<and>
   keys_consistent (search_cache demo_full_cache) \<and>
   username (snd (demo_entry ''bob'' ''b0'' 0)) \<noteq> ''alice'' \<and>
   \<not> od_contains (cache_key ''alice'' ''a10'') (search_cache demo_full_cache) \<and>
   snd (demo_entry ''bob'' ''b0'' 0) \<in> set (get_cached_searches ''bob'' 10 demo_full_cache) \<and>
   snd (demo_entry ''bob'' ''b0'' 0) \<notin>
     set (get_cached_searches ''bob'' 20
            (snd (cache_search_result ''a10'' [demo_result] ''alice'' 10 demo_full_cache)))"
proof -
  have h1: "search_cache demo_full_cache =
     (cache_key ''bob'' ''b0'', snd (demo_entry ''bob'' ''b0'' 0)) # tl (search_cache demo_full_cache)"
    by (simp add: demo_full_cache_def demo_entry_def)
  have h2: "int (length (search_cache demo_full_cache)) = max_search_cache demo_full_cache"
    by (simp add: demo_full_cache_def)
  have h3: "keys_consistent (search_cache demo_full_cache)"
    by (simp add: keys_consistent_def demo_full_cache_def demo_entry_def cache_key_def)
  have h4: "username (snd (demo_entry ''bob'' ''b0'' 0)) \<noteq> ''alice''"
    by (simp add: demo_entry_def)
  have h5: "\<not> od_contains (cache_key ''alice'' ''a10'') (search_cache demo_full_cache)"
    by (simp add: demo_full_cache_def demo_entry_def cache_key_def od_contains_def)
  have u: "username (snd (demo_entry ''bob'' ''b0'' 0)) = ''bob''"
    by (simp add: demo_entry_def)
  have m: "max_search_cache demo_full_cache = 10"
    by (simp add: demo_full_cache_def)
  from eviction_is_global [OF h1 h2 h3 h4 h5, where rs = "[demo_result]" and now = 10
      and limit = 20]
  have "snd (demo_entry ''bob'' ''b0'' 0) \<in> set (get_cached_searches ''bob'' 10 demo_full_cache) \<and>
        snd (demo_entry ''bob'' ''b0'' 0) \<notin>
          set (get_cached_searches ''bob'' 20
            (snd (cache_search_result ''a10'' [demo_result] ''alice'' 10 demo_full_cache)))"
    unfolding u m by blast
  with h1 h2 h3 h4 h5 show ?thesis by blast
qed

section \<open>The fuzzy match of the cache-first search\<close>


lemma first_cache_hit_Some:
  "first_cache_hit q xs = Some e \<Longrightarrow>
   \<exists>pre post. xs = pre @ e # post \<and> (\<forall>x \<in> set pre. \<not> is_cache_hit q x) \<and> is_cache_hit q e"
proof (induction xs)
  case Nil
  then show ?case by simp
next
  case (Cons x xs)
  show ?case
  proof (cases "is_cache_hit q x")
    case True
    with Cons.prems have "x = e" by simp
    with True have "x # xs = [] @ e # xs \<and> (\<forall>y \<in> set []. \<not> is_cache_hit q y) \<and> is_cache_hit q e"
      by simp
    then show ?thesis by blast
  next
    case False
    with Cons.prems have "first_cache_hit q xs = Some e" by simp
    from Cons.IH [OF this] obtain pre post where
      "xs = pre @ e # post" "\<forall>y \<in> set pre. \<not> is_cache_hit q y" "is_cache_hit q e" by blast
    with False have "x # xs = (x # pre) @ e # post \<and> (\<forall>y \<in> set (x # pre). \<not> is_cache_hit q y) \<and> is_cache_hit q e"
      by simp
    then show ?thesis by blast
  qed
qed







section \<open>What a fuzzy hit does to the cache\<close>

lemma chat_completion_frame:
  "chat_completion cfg ad req w = (r, w') \<Longrightarrow>
   cache w' = cache w \<and> store w' = store w \<and> embed_calls w' = embed_calls w \<and>
   search_calls w' = search_calls w \<and> chat_calls w' = chat_calls w @ [req]"
  by (auto simp: chat_completion_def Let_def split: if_splits sum.splits)

lemma answer_with_frame:
  "answer_with cfg ad prompt rs q w = (r, w') \<Longrightarrow>
   cache w' = cache w \<and> store w' = store w \<and> embed_calls w' = embed_calls w \<and>
   search_calls w' = search_calls w \<and> length (chat_calls w') = Suc (length (chat_calls w))"
  unfolding answer_with_def
  by (auto split: prod.splits sum.splits option.splits dest!: chat_completion_frame)

lemma search_cache_first_hit_cache:
  assumes "first_cache_hit q (get_cached_searches u 20 (cache w)) = Some e"
  shows "cache (snd (search_cache_first cfg ad q u limit now w)) =
           snd (cache_search_result q (results e) u now (cache w))"
proof -
  obtain err cm where p: "cache_search_result q (results e) u now (cache w) = (err, cm)"
    by (cases "cache_search_result q (results e) u now (cache w)")
  obtain r w1 where a: "answer_with cfg ad CachePrompt (results e) q (w\<lparr>cache := cm\<rparr>) = (r, w1)"
    by (cases "answer_with cfg ad CachePrompt (results e) q (w\<lparr>cache := cm\<rparr>)")
  from answer_with_frame [OF a] have "cache w1 = cm" by simp
  with assms p a show ?thesis
    by (cases err; cases r) (simp_all add: search_cache_first_def)
qed

lemma cache_key_same_owner: "(cache_key u q1 = cache_key u q2) = (q1 = q2)"
  by (simp add: cache_key_def)

text \<open>
  C8, as the claim states it: after a hit on an entry whose query differs from the new
  one, the matched entry is still in the cache and the count has grown. In a full cache
  where the matched entry is the oldest one, the put evicts the matched entry itself and
  the count stays as it was: bob's only entry \<open>b0\<close> is hit by \<open>B0\<close> and is gone afterwards.
\<close>

theorem fuzzy_hit_evicts_match_counterexample:
  "first_cache_hit ''B0'' (get_cached_searches ''bob'' 20 demo_full_cache) =
     Some (snd (demo_entry ''bob'' ''b0'' 0)) \<and>
   query (snd (demo_entry ''bob'' ''b0'' 0)) \<noteq> ''B0'' \<and>
   fst (search_cache_first demo_cfg demo_adapters ''B0'' ''bob'' 8 10
          (demo_world (demo_store 1536 []) demo_full_cache)) = Inr ''Paris.'' \<and>
   search_cache (cache (snd (search_cache_first demo_cfg demo_adapters ''B0'' ''bob'' 8 10
          (demo_world (demo_store 1536 []) demo_full_cache)))) =
     tl (search_cache demo_full_cache) @ [demo_entry ''bob'' ''B0'' 10] \<and>
   demo_entry ''bob'' ''b0'' 0 \<notin>
     set (search_cache (cache (snd (search_cache_first demo_cfg demo_adapters ''B0'' ''bob'' 8 10
          (demo_world (demo_store 1536 []) demo_full_cache))))) \<and>
   length (search_cache (cache (snd (search_cache_first demo_cfg demo_adapters ''B0'' ''bob'' 8 10
          (demo_world (demo_store 1536 []) demo_full_cache))))) =
     length (search_cache demo_full_cache)"
proof -
  have h: "first_cache_hit ''B0'' (get_cached_searches ''bob'' 20 demo_full_cache) =
     Some (snd (demo_entry ''bob'' ''b0'' 0))"
    by (simp add: get_cached_searches_def demo_full_cache_def demo_entry_def slice_to_def
        is_cache_hit_def lower_def py_in_def)
  have p: "cache_search_result ''B0'' [demo_result] ''bob'' 10 demo_full_cache =
     (None, \<lparr>max_search_cache = 10,
        search_cache = tl (search_cache demo_full_cache) @ [demo_entry ''bob'' ''B0'' 10]\<rparr>)"
    by (simp add: cache_search_result_def demo_full_cache_def demo_entry_def cache_key_def
        od_contains_def od_set_def od_del_def Let_def)
  have r: "search_cache_first demo_cfg demo_adapters ''B0'' ''bob'' 8 10
          (demo_world (demo_store 1536 []) demo_full_cache) =
       (Inr ''Paris.'',
        \<lparr>store = demo_store 1536 [],
         cache = \<lparr>max_search_cache = 10,
           search_cache = tl (search_cache demo_full_cache) @ [demo_entry ''bob'' ''B0'' 10]\<rparr>,
         embed_calls = [], search_calls = [],
         chat_calls = [\<lparr>system_msg = CachePrompt, context_results = [demo_result],
                        question = ''B0'', max_tokens = 800\<rparr>]\<rparr>)"
    using h p
    by (simp add: search_cache_first_def demo_world_def answer_with_def chat_completion_def
        demo_cfg_def demo_adapters_def openai_style_def demo_entry_def)
  show ?thesis
    unfolding r using h
    by (simp add: demo_full_cache_def demo_entry_def cache_key_def)
qed

text \<open>
  C8, amended. On a fuzzy hit with a new query that differs from the matched one, the only
  change of the cache is the put of the new query with the matched entry's results: the
  new entry goes to the end, after the put's own delete step removed an older binding of
  the new key, if there was one. The matched entry is not refreshed and survives that
  delete step with its key, timestamp and place; only the capacity eviction that follows
  can drop it. When the cache is below capacity after the delete step nothing is evicted,
  and when in addition the new key was not cached, the cache is the old one plus the new
  entry: the count grows by one.
\<close>

theorem fuzzy_hit_appends_entry:
  assumes hit: "first_cache_hit q (get_cached_searches u 20 (cache w)) = Some e"
    and diff: "query e \<noteq> q"
    and inv: "keys_consistent (search_cache (cache w))"
    and cap: "0 \<le> max_search_cache (cache w)"
  shows "cache (snd (search_cache_first cfg ad q u limit now w)) =
           snd (cache_search_result q (results e) u now (cache w)) \<and>
         search_cache (snd (cache_search_result q (results e) u now (cache w))) =
           drop (Suc (length (od_del (cache_key u q) (search_cache (cache w)))) -
                 nat (max_search_cache (cache w)))
             (od_del (cache_key u q) (search_cache (cache w)) @
              [(cache_key u q,
                \<lparr>query = q, results = results e, timestamp = now, username = u\<rparr>)]) \<and>
         (cache_key u (query e), e) \<in> set (od_del (cache_key u q) (search_cache (cache w))) \<and>
         (int (length (od_del (cache_key u q) (search_cache (cache w))))
            < max_search_cache (cache w) \<longrightarrow>
          search_cache (snd (cache_search_result q (results e) u now (cache w))) =
            od_del (cache_key u q) (search_cache (cache w)) @
            [(cache_key u q,
              \<lparr>query = q, results = results e, timestamp = now, username = u\<rparr>)]) \<and>
         (\<not> od_contains (cache_key u q) (search_cache (cache w)) \<and>
          int (length (search_cache (cache w))) < max_search_cache (cache w) \<longrightarrow>
          search_cache (snd (cache_search_result q (results e) u now (cache w))) =
            search_cache (cache w) @
            [(cache_key u q,
              \<lparr>query = q, results = results e, timestamp = now, username = u\<rparr>)])"
proof -
  let ?od = "search_cache (cache w)"
  let ?od' = "od_del (cache_key u q) ?od"
  let ?new = "(cache_key u q, \<lparr>query = q, results = results e, timestamp = now, username = u\<rparr>)"
  let ?res = "search_cache (snd (cache_search_result q (results e) u now (cache w)))"
  have c1: "cache (snd (search_cache_first cfg ad q u limit now w)) =
           snd (cache_search_result q (results e) u now (cache w))"
    by (rule search_cache_first_hit_cache [OF hit])
  have c2: "?res = drop (Suc (length ?od') - nat (max_search_cache (cache w))) (?od' @ [?new])"
    by (simp add: cache_search_result_nonneg [OF cap])
  from first_cache_hit_Some [OF hit] have "e \<in> set (get_cached_searches u 20 (cache w))"
    by auto
  then have own: "username e = u" and mem: "e \<in> snd ` set ?od"
    using get_cached_searches_set [of u 20 "cache w"] by auto
  from mem obtain k where kin: "(k, e) \<in> set ?od" by auto
  have k: "k = cache_key u (query e)"
    using keys_consistent_entry [OF inv kin] own by simp
  have "k \<noteq> cache_key u q" using k diff by (simp add: cache_key_same_owner)
  with kin k have c3: "(cache_key u (query e), e) \<in> set ?od'"
    by (simp add: od_del_def)
  have c4: "?res = ?od' @ [?new]" if "int (length ?od') < max_search_cache (cache w)"
  proof -
    from that have "Suc (length ?od') - nat (max_search_cache (cache w)) = 0" by linarith
    with c2 show ?thesis by (simp only: drop_0)
  qed
  have c5: "?res = ?od @ [?new]"
    if "\<not> od_contains (cache_key u q) ?od \<and> int (length ?od) < max_search_cache (cache w)"
  proof -
    from that have "?od' = ?od" by (simp add: od_del_absent)
    with c4 that show ?thesis by simp
  qed
  from c1 c2 c3 c4 c5 show ?thesis by blast
qed

theorem fuzzy_hit_appends_entry_witness:
  "first_cache_hit ''python tutorials for beginners''
     (get_cached_searches ''alice'' 20 (cache (demo_world (demo_store 1536 []) demo_fuzzy_cache))) =
     Some (snd (demo_entry ''alice'' ''python tutorials'' 1)) \<and>
   query (snd (demo_entry ''alice'' ''python tutorials'' 1)) \<noteq> ''python tutorials for beginners'' \<and>
   keys_consistent (search_cache (cache (demo_world (demo_store 1536 []) demo_fuzzy_cache))) \<and>
   0 \<le> max_search_cache (cache (demo_world (demo_store 1536 []) demo_fuzzy_cache)) \<and>
   search_cache (cache (snd (search_cache_first demo_cfg demo_adapters
       ''python tutorials for beginners'' ''alice'' 8 4
       (demo_world (demo_store 1536 []) demo_fuzzy_cache)))) =
     search_cache demo_fuzzy_cache @ [demo_entry ''alice'' ''python tutorials for beginners'' 4]"
proof -
  let ?w = "demo_world (demo_store 1536 []) demo_fuzzy_cache"
  let ?q = "''python tutorials for beginners''"
  let ?e = "snd (demo_entry ''alice'' ''python tutorials'' 1)"
  have c: "cache ?w = demo_fuzzy_cache" by (simp add: demo_world_def)
  have h: "first_cache_hit ?q (get_cached_searches ''alice'' 20 (cache ?w)) = Some ?e"
    unfolding c
    by (simp add: get_cached_searches_def demo_fuzzy_cache_def demo_entry_def slice_to_def
        is_cache_hit_def lower_def py_in_def sublist_Cons_right)
  have d: "query ?e \<noteq> ?q" by (simp add: demo_entry_def)
  have i: "keys_consistent (search_cache (cache ?w))"
    unfolding c by (simp add: keys_consistent_def demo_fuzzy_cache_def demo_entry_def cache_key_def)
  have m: "0 \<le> max_search_cache (cache ?w)"
    unfolding c by (simp add: demo_fuzzy_cache_def)
  have fresh: "\<not> od_contains (cache_key ''alice'' ?q) (search_cache (cache ?w)) \<and>
     int (length (search_cache (cache ?w))) < max_search_cache (cache ?w)"
    unfolding c by (simp add: demo_fuzzy_cache_def demo_entry_def cache_key_def od_contains_def)
  have res: "results ?e = [demo_result]" by (simp add: demo_entry_def)
  note T = fuzzy_hit_appends_entry [OF h d i m, where cfg = demo_cfg and ad = demo_adapters
      and limit = 8 and now = 4]
  from T have a1: "cache (snd (search_cache_first demo_cfg demo_adapters ?q ''alice'' 8 4 ?w)) =
      snd (cache_search_result ?q (results ?e) ''alice'' 4 (cache ?w))"
    by (rule conjunct1)
  from T fresh have a5: "search_cache (snd (cache_search_result ?q (results ?e) ''alice'' 4 (cache ?w))) =
     search_cache (cache ?w) @
       [(cache_key ''alice'' ?q,
         \<lparr>query = ?q, results = results ?e, timestamp = 4, username = ''alice''\<rparr>)]"
    by blast
  have "search_cache (cache (snd (search_cache_first demo_cfg demo_adapters ?q ''alice'' 8 4 ?w))) =
     search_cache (cache ?w) @
       [(cache_key ''alice'' ?q,
         \<lparr>query = ?q, results = results ?e, timestamp = 4, username = ''alice''\<rparr>)]"
    by (simp only: a1 a5)
  then have "search_cache (cache (snd (search_cache_first demo_cfg demo_adapters ?q ''alice'' 8 4 ?w))) =
     search_cache demo_fuzzy_cache @ [demo_entry ''alice'' ?q 4]"
    unfolding c res by (simp add: demo_entry_def)
  with h d i m show ?thesis by blast
qed

section \<open>Collection bootstrap\<close>

lemma create_payload_index_present:
  assumes "q name = Some c"
  shows "\<exists>ix. create_payload_index q name f sch = Inr (q(name \<mapsto> c\<lparr>payload_indexes := ix\<rparr>))"
proof -
  let ?ix = "if f \<in> set (map fst (payload_indexes c)) then payload_indexes c
             else payload_indexes c @ [(f, sch)]"
  have "create_payload_index q name f sch = Inr (q(name \<mapsto> c\<lparr>payload_indexes := ?ix\<rparr>))"
    using assms by (simp add: create_payload_index_def)
  then show ?thesis by (rule exI)
qed

lemma ensure_indexes_exist_present:
  assumes "q name = Some c"
  shows "\<exists>ix. ensure_indexes_exist q name = q(name \<mapsto> c\<lparr>payload_indexes := ix\<rparr>)"
proof -
  from create_payload_index_present [where q = q and name = name and c = c, OF assms]
  obtain ix1 where s1: "create_payload_index q name ''username'' KEYWORD =
      Inr (q(name \<mapsto> c\<lparr>payload_indexes := ix1\<rparr>))" by blast
  let ?q1 = "q(name \<mapsto> c\<lparr>payload_indexes := ix1\<rparr>)"
  have "?q1 name = Some (c\<lparr>payload_indexes := ix1\<rparr>)" by simp
  from create_payload_index_present [where q = ?q1 and name = name, OF this]
  obtain ix2 where s2: "create_payload_index ?q1 name ''content_type'' KEYWORD =
      Inr (q(name \<mapsto> c\<lparr>payload_indexes := ix2\<rparr>))" by auto
  let ?q2 = "q(name \<mapsto> c\<lparr>payload_indexes := ix2\<rparr>)"
  have "?q2 name = Some (c\<lparr>payload_indexes := ix2\<rparr>)" by simp
  from create_payload_index_present [where q = ?q2 and name = name, OF this]
  obtain ix3 where s3: "create_payload_index ?q2 name ''timestamp'' FLOAT =
      Inr (q(name \<mapsto> c\<lparr>payload_indexes := ix3\<rparr>))" by auto
  have "ensure_indexes_exist q name = q(name \<mapsto> c\<lparr>payload_indexes := ix3\<rparr>)"
    by (simp add: ensure_indexes_exist_def s1 s2 s3)
  then show ?thesis by (rule exI)
qed

lemma ensure_indexes_exist_fresh:
  "ensure_indexes_exist (q(name \<mapsto> \<lparr>vectors_size = d, points = [], payload_indexes = []\<rparr>)) name =
     q(name \<mapsto> \<lparr>vectors_size = d, points = [],
                  payload_indexes = [(''username'', KEYWORD), (''content_type'', KEYWORD),
                                     (''timestamp'', FLOAT)]\<rparr>)"
  by (simp add: ensure_indexes_exist_def create_payload_index_def)

lemma create_collection_with_indexes_absent:
  "q name = None \<Longrightarrow>
   create_collection_with_indexes q name d =
     (None, q(name \<mapsto> \<lparr>vectors_size = d, points = [],
                  payload_indexes = [(''username'', KEYWORD), (''content_type'', KEYWORD),
                                     (''timestamp'', FLOAT)]\<rparr>))"
  by (simp add: create_collection_with_indexes_def create_collection_def ensure_indexes_exist_fresh)

lemma ensure_absent:
  "q name = None \<Longrightarrow>
   ensure_collection_exists cfg q name =
     (None, q(name \<mapsto> \<lparr>vectors_size = get_embedding_dimensions (provider cfg) (embedding_model cfg),
                  points = [],
                  payload_indexes = [(''username'', KEYWORD), (''content_type'', KEYWORD),
                                     (''timestamp'', FLOAT)]\<rparr>))"
  by (simp add: ensure_collection_exists_def get_collection_def create_collection_with_indexes_absent)

lemma ensure_mismatch:
  assumes "q name = Some c"
    and "vectors_size c \<noteq> get_embedding_dimensions (provider cfg) (embedding_model cfg)"
  shows "ensure_collection_exists cfg q name =
     (None, q(name \<mapsto> \<lparr>vectors_size = get_embedding_dimensions (provider cfg) (embedding_model cfg),
                  points = [],
                  payload_indexes = [(''username'', KEYWORD), (''content_type'', KEYWORD),
                                     (''timestamp'', FLOAT)]\<rparr>))"
proof -
  have "delete_collection q name name = None" by (simp add: delete_collection_def)
  then have "create_collection_with_indexes (delete_collection q name) name
       (get_embedding_dimensions (provider cfg) (embedding_model cfg)) =
     (None, (delete_collection q name)(name \<mapsto>
        \<lparr>vectors_size = get_embedding_dimensions (provider cfg) (embedding_model cfg),
         points = [],
         payload_indexes = [(''username'', KEYWORD), (''content_type'', KEYWORD),
                            (''timestamp'', FLOAT)]\<rparr>))"
    by (rule create_collection_with_indexes_absent)
  moreover have "(delete_collection q name)(name \<mapsto> x) = q(name \<mapsto> x)" for x
    by (simp add: delete_collection_def)
  ultimately show ?thesis using assms
    by (simp add: ensure_collection_exists_def get_collection_def)
qed

lemma ensure_match:
  assumes "q name = Some c"
    and "vectors_size c = get_embedding_dimensions (provider cfg) (embedding_model cfg)"
  shows "\<exists>ix. ensure_collection_exists cfg q name = (None, q(name \<mapsto> c\<lparr>payload_indexes := ix\<rparr>))"
  using assms ensure_indexes_exist_present [where q = q and name = name and c = c]
  by (simp add: ensure_collection_exists_def get_collection_def)

lemma ensure_collection_exists_ok: "fst (ensure_collection_exists cfg q name) = None"
proof (cases "q name")
  case None
  then show ?thesis by (simp add: ensure_absent)
next
  case (Some c)
  show ?thesis
  proof (cases "vectors_size c = get_embedding_dimensions (provider cfg) (embedding_model cfg)")
    case True
    from ensure_match [where q = q and name = name and c = c and cfg = cfg] Some True
    show ?thesis by auto
  next
    case False
    from ensure_mismatch [where q = q and name = name and c = c and cfg = cfg] Some False
    show ?thesis by simp
  qed
qed

lemma ensure_points_from_before:
  assumes "snd (ensure_collection_exists cfg q name) name = Some c1" and "p \<in> set (points c1)"
  shows "\<exists>c0. q name = Some c0 \<and> p \<in> set (points c0)"
proof (cases "q name")
  case None
  with assms show ?thesis by (auto simp: ensure_absent)
next
  case (Some c)
  show ?thesis
  proof (cases "vectors_size c = get_embedding_dimensions (provider cfg) (embedding_model cfg)")
    case True
    from ensure_match [where q = q and name = name and c = c and cfg = cfg] Some True assms
    show ?thesis by auto
  next
    case False
    from ensure_mismatch [where q = q and name = name and c = c and cfg = cfg] Some False assms
    show ?thesis by auto
  qed
qed

text \<open>
  C5. For a collection that exists, \<open>ensure_collection_exists\<close> returns without an
  exception. When the vector size of the collection differs from the dimensions expected
  for the configured provider and model, the collection afterwards is a new one of the
  expected size with no points (the points of every owner are gone) and the three payload
  indexes. When the sizes agree, the collection keeps its size and its points.
\<close>

theorem dimension_mismatch_recreates:
  assumes "q name = Some c"
  shows "fst (ensure_collection_exists cfg q name) = None \<and>
         (vectors_size c \<noteq> get_embedding_dimensions (provider cfg) (embedding_model cfg) \<longrightarrow>
            snd (ensure_collection_exists cfg q name) =
              q(name \<mapsto>
                \<lparr>vectors_size = get_embedding_dimensions (provider cfg) (embedding_model cfg),
                 points = [],
                 payload_indexes = [(''username'', KEYWORD), (''content_type'', KEYWORD),
                                    (''timestamp'', FLOAT)]\<rparr>)) \<and>
         (vectors_size c = get_embedding_dimensions (provider cfg) (embedding_model cfg) \<longrightarrow>
            (\<exists>c'. snd (ensure_collection_exists cfg q name) name = Some c' \<and>
                  vectors_size c' = vectors_size c \<and> points c' = points c))"
proof -
  have m: "snd (ensure_collection_exists cfg q name) =
              q(name \<mapsto>
                \<lparr>vectors_size = get_embedding_dimensions (provider cfg) (embedding_model cfg),
                 points = [],
                 payload_indexes = [(''username'', KEYWORD), (''content_type'', KEYWORD),
                                    (''timestamp'', FLOAT)]\<rparr>)"
    if "vectors_size c \<noteq> get_embedding_dimensions (provider cfg) (embedding_model cfg)"
    using ensure_mismatch [where q = q and name = name and c = c and cfg = cfg] assms that by simp
  have k: "\<exists>c'. snd (ensure_collection_exists cfg q name) name = Some c' \<and>
                  vectors_size c' = vectors_size c \<and> points c' = points c"
    if "vectors_size c = get_embedding_dimensions (provider cfg) (embedding_model cfg)"
    using ensure_match [where q = q and name = name and c = c and cfg = cfg] assms that by auto
  from m k ensure_collection_exists_ok [of cfg q name] show ?thesis by blast
qed

theorem dimension_mismatch_recreates_witness:
  "demo_store 768 [demo_point ''p1'' ''alice'' ''Paris'', demo_point ''p2'' ''bob'' ''Oslo'']
     ''recall_documents'' =
     Some \<lparr>vectors_size = 768,
           points = [demo_point ''p1'' ''alice'' ''Paris'', demo_point ''p2'' ''bob'' ''Oslo''],
           payload_indexes = []\<rparr> \<and>
   get_embedding_dimensions (provider demo_cfg) (embedding_model demo_cfg) = 1536 \<and>
   snd (ensure_collection_exists demo_cfg
          (demo_store 768 [demo_point ''p1'' ''alice'' ''Paris'', demo_point ''p2'' ''bob'' ''Oslo''])
          ''recall_documents'') ''recall_documents'' =
     Some \<lparr>vectors_size = 1536, points = [],
           payload_indexes = [(''username'', KEYWORD), (''content_type'', KEYWORD),
                              (''timestamp'', FLOAT)]\<rparr>"
proof -
  let ?ps = "[demo_point ''p1'' ''alice'' ''Paris'', demo_point ''p2'' ''bob'' ''Oslo'']"
  let ?c = "\<lparr>vectors_size = 768, points = ?ps, payload_indexes = []\<rparr>"
  have h: "demo_store 768 ?ps ''recall_documents'' = Some ?c"
    by (simp add: demo_store_def)
  have d: "get_embedding_dimensions (provider demo_cfg) (embedding_model demo_cfg) = 1536"
    by (simp add: get_embedding_dimensions_def dimensions_map_def demo_cfg_def)
  have ne: "vectors_size ?c \<noteq> get_embedding_dimensions (provider demo_cfg) (embedding_model demo_cfg)"
    unfolding d by simp
  from dimension_mismatch_recreates [where q = "demo_store 768 ?ps"
      and name = "''recall_documents''" and c = ?c and cfg = demo_cfg, OF h] ne
  have "snd (ensure_collection_exists demo_cfg (demo_store 768 ?ps) ''recall_documents'') =
     (demo_store 768 ?ps)(''recall_documents'' \<mapsto>
        \<lparr>vectors_size = get_embedding_dimensions (provider demo_cfg) (embedding_model demo_cfg),
         points = [],
         payload_indexes = [(''username'', KEYWORD), (''content_type'', KEYWORD),
                            (''timestamp'', FLOAT)]\<rparr>)"
    by blast
  then have "snd (ensure_collection_exists demo_cfg (demo_store 768 ?ps) ''recall_documents'')
      ''recall_documents'' =
     Some \<lparr>vectors_size = 1536, points = [],
           payload_indexes = [(''username'', KEYWORD), (''content_type'', KEYWORD),
                              (''timestamp'', FLOAT)]\<rparr>"
    unfolding d by simp
  with h d show ?thesis by blast
qed

section \<open>Owner scope of the vector search\<close>

lemma qdrant_search_hits:
  assumes "qdrant_search sim q name qv flt limit th = Inr hits" and "h \<in> set hits"
  shows "\<exists>c p. q name = Some c \<and> p \<in> set (points c) \<and> filter_matches flt p \<and>
               h = score_point sim qv p"
proof -
  from assms(1) obtain c where c: "q name = Some c"
    and hits: "hits = take (nat limit) (sort_key (\<lambda>h. - hit_score h)
                 (filter (above_threshold th)
                    (map (score_point sim qv) (filter (filter_matches flt) (points c)))))"
    by (auto simp: qdrant_search_def split: option.splits if_splits)
  from assms(2) hits have "h \<in> set (map (score_point sim qv) (filter (filter_matches flt) (points c)))"
    by (auto dest: in_set_takeD)
  with c show ?thesis by auto
qed

lemma user_filter_matches:
  "filter_matches (user_filter u) p = (map_of (p_payload p) ''username'' = Some (PStr u))"
  by (simp add: user_filter_def)

lemma search_with_owner_scoped:
  assumes "search_with th cfg ad emb u limit w = (Inr rs, w')" and "r \<in> set rs"
  shows "\<exists>c0 p. store w (qdrant_collection_name cfg) = Some c0 \<and> p \<in> set (points c0) \<and>
           map_of (p_payload p) ''username'' = Some (PStr u) \<and>
           r = format_hit (score_point (similarity ad) emb p)"
proof -
  let ?name = "qdrant_collection_name cfg"
  obtain err q1 where e: "ensure_collection_exists cfg (store w) ?name = (err, q1)"
    by (cases "ensure_collection_exists cfg (store w) ?name")
  from assms(1) e obtain hits where
    s: "qdrant_search (similarity ad) q1 ?name emb (user_filter u) limit th = Inr hits"
    and rs: "rs = map format_hit hits"
    by (auto simp: search_with_def Let_def split: option.splits sum.splits)
  from assms(2) rs obtain h where h: "h \<in> set hits" "r = format_hit h" by auto
  from qdrant_search_hits [OF s h(1)] obtain c1 p where
    c1: "q1 ?name = Some c1" and p: "p \<in> set (points c1)"
    and m: "filter_matches (user_filter u) p" and hp: "h = score_point (similarity ad) emb p"
    by blast
  from e c1 have "snd (ensure_collection_exists cfg (store w) ?name) ?name = Some c1" by simp
  from ensure_points_from_before [OF this p] obtain c0 where
    "store w ?name = Some c0" "p \<in> set (points c0)" by blast
  with m hp h(2) show ?thesis by (auto simp: user_filter_matches)
qed

lemma qdrant_search_upd:
  "qdrant_search sim (q(name \<mapsto> c)) name qv flt limit th =
     (if int (length qv) \<noteq> vectors_size c
      then Inl (Exn ExternalError ''Vector dimension error'')
      else Inr (take (nat limit)
             (sort_key (\<lambda>h. - hit_score h)
                (filter (above_threshold th)
                   (map (score_point sim qv) (filter (filter_matches flt) (points c)))))))"
  by (simp add: qdrant_search_def)

lemma user_filter_owned: "filter_matches (user_filter u) = owned_by u"
  by (rule ext) (simp add: owned_by_def user_filter_matches)

lemma search_after_ensure_ignores_others:
  assumes "q name = Some c"
  shows "qdrant_search sim
           (snd (ensure_collection_exists cfg
                   (q(name \<mapsto> c\<lparr>points := filter (owned_by u) (points c)\<rparr>)) name))
           name qv (user_filter u) limit th =
         qdrant_search sim (snd (ensure_collection_exists cfg q name)) name qv
           (user_filter u) limit th"
proof (cases "vectors_size c = get_embedding_dimensions (provider cfg) (embedding_model cfg)")
  case True
  let ?c' = "c\<lparr>points := filter (owned_by u) (points c)\<rparr>"
  let ?q' = "q(name \<mapsto> ?c')"
  from ensure_match [where q = q and name = name and c = c and cfg = cfg] assms True
  obtain ix where e: "ensure_collection_exists cfg q name = (None, q(name \<mapsto> c\<lparr>payload_indexes := ix\<rparr>))"
    by blast
  have "?q' name = Some ?c'" by simp
  moreover have "vectors_size ?c' = get_embedding_dimensions (provider cfg) (embedding_model cfg)"
    using True by simp
  ultimately obtain ix' where
    e': "ensure_collection_exists cfg ?q' name = (None, ?q'(name \<mapsto> ?c'\<lparr>payload_indexes := ix'\<rparr>))"
    using ensure_match [where q = ?q' and name = name and c = ?c' and cfg = cfg] by blast
  show ?thesis
    unfolding e e' snd_conv qdrant_search_upd by (simp add: user_filter_owned)
next
  case False
  let ?c' = "c\<lparr>points := filter (owned_by u) (points c)\<rparr>"
  let ?q' = "q(name \<mapsto> ?c')"
  have "?q' name = Some ?c'" by simp
  moreover have "vectors_size ?c' \<noteq> get_embedding_dimensions (provider cfg) (embedding_model cfg)"
    using False by simp
  ultimately have e': "snd (ensure_collection_exists cfg ?q' name) =
      ?q'(name \<mapsto> \<lparr>vectors_size = get_embedding_dimensions (provider cfg) (embedding_model cfg),
                  points = [],
                  payload_indexes = [(''username'', KEYWORD), (''content_type'', KEYWORD),
                                     (''timestamp'', FLOAT)]\<rparr>)"
    using ensure_mismatch [where q = ?q' and name = name and c = ?c' and cfg = cfg] by simp
  have e: "snd (ensure_collection_exists cfg q name) =
      q(name \<mapsto> \<lparr>vectors_size = get_embedding_dimensions (provider cfg) (embedding_model cfg),
                  points = [],
                  payload_indexes = [(''username'', KEYWORD), (''content_type'', KEYWORD),
                                     (''timestamp'', FLOAT)]\<rparr>)"
    using ensure_mismatch [where q = q and name = name and c = c and cfg = cfg] assms False by simp
  show ?thesis unfolding e e' by simp
qed

lemma search_with_fst:
  "fst (search_with th cfg ad emb u limit w) =
     (case qdrant_search (similarity ad)
             (snd (ensure_collection_exists cfg (store w) (qdrant_collection_name cfg)))
             (qdrant_collection_name cfg) emb (user_filter u) limit th of
        Inl e \<Rightarrow> Inl (Exn DatabaseError (''Failed to search vector database: '' @ str_exn e))
      | Inr hits \<Rightarrow> Inr (map format_hit hits))"
proof -
  obtain q1 where "ensure_collection_exists cfg (store w) (qdrant_collection_name cfg) = (None, q1)"
    using ensure_collection_exists_ok [of cfg "store w" "qdrant_collection_name cfg"]
    by (cases "ensure_collection_exists cfg (store w) (qdrant_collection_name cfg)") simp
  then show ?thesis
    by (simp add: search_with_def Let_def split: sum.splits)
qed

lemma search_with_ignores_others:
  "fst (search_with th cfg ad emb u limit (without_other_owners cfg u w)) =
   fst (search_with th cfg ad emb u limit w)"
proof (cases "store w (qdrant_collection_name cfg)")
  case None
  then show ?thesis by (simp add: without_other_owners_def)
next
  case (Some c)
  then have "store (without_other_owners cfg u w) =
      (store w)(qdrant_collection_name cfg \<mapsto> c\<lparr>points := filter (owned_by u) (points c)\<rparr>)"
    by (simp add: without_other_owners_def)
  then show ?thesis
    unfolding search_with_fst
    using search_after_ensure_ignores_others [where q = "store w"
        and name = "qdrant_collection_name cfg" and c = c, OF Some]
    by simp
qed

lemma demo_dims: "get_embedding_dimensions (provider demo_cfg) (embedding_model demo_cfg) = 1536"
  by (simp add: get_embedding_dimensions_def dimensions_map_def demo_cfg_def)

lemma demo_ensure:
  "ensure_collection_exists demo_cfg (demo_store 1536 ps) ''recall_documents'' =
     (None, [''recall_documents'' \<mapsto>
        \<lparr>vectors_size = 1536, points = ps,
         payload_indexes = [(''username'', KEYWORD), (''content_type'', KEYWORD),
                            (''timestamp'', FLOAT)]\<rparr>])"
  by (simp add: ensure_collection_exists_def get_collection_def demo_dims demo_store_def
      ensure_indexes_exist_def create_payload_index_def)

lemma demo_search_alice:
  "fst (search_with th demo_cfg demo_adapters (replicate 1536 1) ''alice'' 5
          (demo_owner_world [demo_point ''p1'' ''alice'' ''Paris'', demo_point ''p2'' ''bob'' ''Oslo''])) =
     (if above_threshold th \<lparr>hit_id = ''p1'', hit_score = 1 / 2,
            hit_payload = p_payload (demo_point ''p1'' ''alice'' ''Paris'')\<rparr>
      then Inr [\<lparr>r_id = ''p1'', r_score = 1 / 2, r_text = PStr ''Paris'', r_timestamp = PNum 1,
            r_content_type = PStr ''general'', r_metadata = []\<rparr>]
      else Inr [])"
proof -
  have q: "qdrant_collection_name demo_cfg = ''recall_documents''" by (simp add: demo_cfg_def)
  show ?thesis
    by (simp add: search_with_def demo_owner_world_def demo_world_def q demo_ensure
        qdrant_search_def user_filter_def demo_point_def score_point_def demo_adapters_def
        format_hit_def dict_get_def reserved_keys_def Let_def)
qed

text \<open>
  C1. Both search functions send the store a filter that requires the payload key
  \<open>username\<close> to equal the owner of the call, so every result they return is the
  formatted hit of a point that was in the collection before the call and whose payload
  has exactly that owner under \<open>username\<close>, and no other owner. (The owner field is the
  one of the stored point: \<open>format_hit\<close> leaves the reserved key \<open>username\<close> out of the
  dictionary it returns.) The points of other owners have no influence: the search
  returns the same on the store from which they are all removed.
\<close>

theorem search_is_owner_scoped:
  assumes "search_vector_db cfg ad emb u limit w = (Inr rs, w') \<or>
           search_vector_db_enhanced cfg ad emb u limit w = (Inr rs, w')"
  shows "(\<forall>r \<in> set rs.
           \<exists>c0 p. store w (qdrant_collection_name cfg) = Some c0 \<and> p \<in> set (points c0) \<and>
             map_of (p_payload p) ''username'' = Some (PStr u) \<and>
             (\<forall>b. b \<noteq> u \<longrightarrow> map_of (p_payload p) ''username'' \<noteq> Some (PStr b)) \<and>
             r = format_hit (score_point (similarity ad) emb p)) \<and>
         fst (search_vector_db cfg ad emb u limit (without_other_owners cfg u w)) =
           fst (search_vector_db cfg ad emb u limit w) \<and>
         fst (search_vector_db_enhanced cfg ad emb u limit (without_other_owners cfg u w)) =
           fst (search_vector_db_enhanced cfg ad emb u limit w)"
proof -
  from assms obtain th where s: "search_with th cfg ad emb u limit w = (Inr rs, w')"
    by (auto simp: search_vector_db_def search_vector_db_enhanced_def)
  have a: "\<exists>c0 p. store w (qdrant_collection_name cfg) = Some c0 \<and> p \<in> set (points c0) \<and>
             map_of (p_payload p) ''username'' = Some (PStr u) \<and>
             (\<forall>b. b \<noteq> u \<longrightarrow> map_of (p_payload p) ''username'' \<noteq> Some (PStr b)) \<and>
             r = format_hit (score_point (similarity ad) emb p)"
    if r: "r \<in> set rs" for r
  proof -
    from search_with_owner_scoped [OF s r] obtain c0 p where
      "store w (qdrant_collection_name cfg) = Some c0" "p \<in> set (points c0)"
      "map_of (p_payload p) ''username'' = Some (PStr u)"
      "r = format_hit (score_point (similarity ad) emb p)" by blast
    then show ?thesis by auto
  qed
  have b: "fst (search_vector_db cfg ad emb u limit (without_other_owners cfg u w)) =
           fst (search_vector_db cfg ad emb u limit w)"
    unfolding search_vector_db_def by (rule search_with_ignores_others)
  have c: "fst (search_vector_db_enhanced cfg ad emb u limit (without_other_owners cfg u w)) =
           fst (search_vector_db_enhanced cfg ad emb u limit w)"
    unfolding search_vector_db_enhanced_def by (rule search_with_ignores_others)
  from a b c show ?thesis by blast
qed

theorem search_is_owner_scoped_witness:
  "fst (search_vector_db demo_cfg demo_adapters (replicate 1536 1) ''alice'' 5
          (demo_owner_world [demo_point ''p1'' ''alice'' ''Paris'', demo_point ''p2'' ''bob'' ''Oslo''])) =
     Inr [\<lparr>r_id = ''p1'', r_score = 1 / 2, r_text = PStr ''Paris'', r_timestamp = PNum 1,
           r_content_type = PStr ''general'', r_metadata = []\<rparr>] \<and>
   (\<exists>c0 p. store (demo_owner_world
                   [demo_point ''p1'' ''alice'' ''Paris'', demo_point ''p2'' ''bob'' ''Oslo''])
              (qdrant_collection_name demo_cfg) = Some c0 \<and>
           p \<in> set (points c0) \<and>
           map_of (p_payload p) ''username'' = Some (PStr ''alice'') \<and>
           \<lparr>r_id = ''p1'', r_score = 1 / 2, r_text = PStr ''Paris'', r_timestamp = PNum 1,
             r_content_type = PStr ''general'', r_metadata = []\<rparr> =
             format_hit (score_point (similarity demo_adapters) (replicate 1536 1) p))"
proof -
  let ?w = "demo_owner_world [demo_point ''p1'' ''alice'' ''Paris'', demo_point ''p2'' ''bob'' ''Oslo'']"
  let ?r = "\<lparr>r_id = ''p1'', r_score = 1 / 2, r_text = PStr ''Paris'', r_timestamp = PNum 1,
             r_content_type = PStr ''general'', r_metadata = []\<rparr>"
  have f: "fst (search_vector_db demo_cfg demo_adapters (replicate 1536 1) ''alice'' 5 ?w) = Inr [?r]"
    unfolding search_vector_db_def demo_search_alice by (simp add: above_threshold_def)
  then have h: "search_vector_db demo_cfg demo_adapters (replicate 1536 1) ''alice'' 5 ?w =
      (Inr [?r], snd (search_vector_db demo_cfg demo_adapters (replicate 1536 1) ''alice'' 5 ?w)) \<or>
    search_vector_db_enhanced demo_cfg demo_adapters (replicate 1536 1) ''alice'' 5 ?w =
      (Inr [?r], snd (search_vector_db demo_cfg demo_adapters (replicate 1536 1) ''alice'' 5 ?w))"
    by (metis prod.collapse)
  from search_is_owner_scoped [OF h]
  have "\<exists>c0 p. store ?w (qdrant_collection_name demo_cfg) = Some c0 \<and> p \<in> set (points c0) \<and>
           map_of (p_payload p) ''username'' = Some (PStr ''alice'') \<and>
           ?r = format_hit (score_point (similarity demo_adapters) (replicate 1536 1) p)"
    by auto
  with f show ?thesis by blast
qed

section \<open>The path without search results\<close>

lemma generate_embedding_frame:
  "generate_embedding cfg ad txt w = (r, w') \<Longrightarrow>
   cache w' = cache w \<and> store w' = store w \<and> search_calls w' = search_calls w \<and>
   chat_calls w' = chat_calls w"
  by (auto simp: generate_embedding_def Let_def split: if_splits prod.splits sum.splits)

lemma search_with_frame:
  "search_with th cfg ad emb u limit w = (r, w') \<Longrightarrow>
   cache w' = cache w \<and> embed_calls w' = embed_calls w \<and> chat_calls w' = chat_calls w"
  by (auto simp: search_with_def Let_def split: if_splits prod.splits sum.splits option.splits)

lemma search_with_logged:
  "search_calls (snd (search_with th cfg ad emb u limit w)) =
     search_calls w @ [(qdrant_collection_name cfg, user_filter u, limit, th)]"
proof -
  obtain q1 where "ensure_collection_exists cfg (store w) (qdrant_collection_name cfg) = (None, q1)"
    using ensure_collection_exists_ok [of cfg "store w" "qdrant_collection_name cfg"]
    by (cases "ensure_collection_exists cfg (store w) (qdrant_collection_name cfg)") simp
  then show ?thesis
    by (simp add: search_with_def Let_def split: sum.splits)
qed

lemma kb_empty_results:
  assumes "generate_embedding cfg ad q w = (Inr emb, w1)"
    and "search_vector_db_enhanced cfg ad emb u (search_limit q limit) w1 = (Inr [], w2)"
  shows "query_knowledge_base cfg ad q u limit now w = (Inr no_info_message, w2)"
  using assms by (simp add: query_knowledge_base_def)

lemma kb_empty_frame:
  assumes "generate_embedding cfg ad q w = (Inr emb, w1)"
    and "search_vector_db_enhanced cfg ad emb u (search_limit q limit) w1 = (Inr [], w2)"
  shows "cache w2 = cache w \<and> chat_calls w2 = chat_calls w"
  using generate_embedding_frame [OF assms(1)]
    search_with_frame [OF assms(2) [unfolded search_vector_db_enhanced_def]]
  by simp

lemma search_cache_first_miss:
  assumes "first_cache_hit q (get_cached_searches u 20 (cache w)) = None"
  shows "snd (search_cache_first cfg ad q u limit now w) =
           snd (query_knowledge_base cfg ad q u limit now w) \<and>
         (fst (query_knowledge_base cfg ad q u limit now w) = Inr reply \<longrightarrow>
          fst (search_cache_first cfg ad q u limit now w) = Inr reply)"
  using assms
  by (auto simp: search_cache_first_def split: prod.splits sum.splits)

lemma demo_embedding:
  "generate_embedding demo_cfg demo_adapters ''capital of France'' (demo_owner_world ps) =
     (Inr (replicate 1536 1),
      (demo_owner_world ps)\<lparr>embed_calls :=
         [(OpenAICompatible, ''text-embedding-ada-002'', ''capital of France'')]\<rparr>)"
  by (simp add: generate_embedding_def strip_def isspace_def demo_cfg_def demo_adapters_def
      embed_route_of_def openai_style_def demo_owner_world_def demo_world_def)

lemma demo_search_limit: "search_limit ''capital of France'' 8 = 8"
  by (simp add: search_limit_def comprehensive_words_def py_in_def lower_def sublist_Cons_right)

lemma demo_search_nothing:
  "fst (search_vector_db_enhanced demo_cfg demo_adapters (replicate 1536 1) ''alice'' 8
          ((demo_owner_world [demo_point ''p2'' ''bob'' ''Oslo''])\<lparr>embed_calls := ec\<rparr>)) = Inr []"
proof -
  have q: "qdrant_collection_name demo_cfg = ''recall_documents''" by (simp add: demo_cfg_def)
  show ?thesis
    by (simp add: search_vector_db_enhanced_def search_with_def demo_owner_world_def
        demo_world_def q demo_ensure qdrant_search_def user_filter_def demo_point_def Let_def)
qed

text \<open>
  C4. When the embedding succeeds and the enhanced search returns no result,
  \<open>query_knowledge_base\<close> returns the fixed no-information message, and the list of
  \<open>chat_completion\<close> calls is the one from before the query: the chat adapter is not
  invoked. The same holds for \<open>search_cache_first\<close> when the cache has no match.
\<close>

theorem empty_search_short_circuits:
  assumes "generate_embedding cfg ad q w = (Inr emb, w1)"
    and "search_vector_db_enhanced cfg ad emb u (search_limit q limit) w1 = (Inr [], w2)"
  shows "query_knowledge_base cfg ad q u limit now w = (Inr no_info_message, w2) \<and>
         chat_calls w2 = chat_calls w \<and>
         (first_cache_hit q (get_cached_searches u 20 (cache w)) = None \<longrightarrow>
          search_cache_first cfg ad q u limit now w = (Inr no_info_message, w2))"
proof -
  have kb: "query_knowledge_base cfg ad q u limit now w = (Inr no_info_message, w2)"
    by (rule kb_empty_results [OF assms])
  have "search_cache_first cfg ad q u limit now w = (Inr no_info_message, w2)"
    if "first_cache_hit q (get_cached_searches u 20 (cache w)) = None"
    using search_cache_first_miss [OF that, of cfg ad limit now no_info_message] kb
    by (cases "search_cache_first cfg ad q u limit now w") simp
  with kb kb_empty_frame [OF assms] show ?thesis by blast
qed

theorem empty_search_short_circuits_witness:
  "fst (generate_embedding demo_cfg demo_adapters ''capital of France''
          (demo_owner_world [demo_point ''p2'' ''bob'' ''Oslo''])) = Inr (replicate 1536 1) \<and>
   fst (search_vector_db_enhanced demo_cfg demo_adapters (replicate 1536 1) ''alice''
          (search_limit ''capital of France'' 8)
          (snd (generate_embedding demo_cfg demo_adapters ''capital of France''
                  (demo_owner_world [demo_point ''p2'' ''bob'' ''Oslo''])))) = Inr [] \<and>
   fst (query_knowledge_base demo_cfg demo_adapters ''capital of France'' ''alice'' 8 5
          (demo_owner_world [demo_point ''p2'' ''bob'' ''Oslo''])) = Inr no_info_message \<and>
   chat_calls (snd (query_knowledge_base demo_cfg demo_adapters ''capital of France'' ''alice'' 8 5
          (demo_owner_world [demo_point ''p2'' ''bob'' ''Oslo'']))) = []"
proof -
  let ?w = "demo_owner_world [demo_point ''p2'' ''bob'' ''Oslo'']"
  let ?q = "''capital of France''"
  let ?w1 = "?w\<lparr>embed_calls := [(OpenAICompatible, ''text-embedding-ada-002'', ?q)]\<rparr>"
  let ?w2 = "snd (search_vector_db_enhanced demo_cfg demo_adapters (replicate 1536 1) ''alice''
                    (search_limit ?q 8) ?w1)"
  have g: "generate_embedding demo_cfg demo_adapters ?q ?w = (Inr (replicate 1536 1), ?w1)"
    by (rule demo_embedding)
  have f: "fst (search_vector_db_enhanced demo_cfg demo_adapters (replicate 1536 1) ''alice''
                    (search_limit ?q 8) ?w1) = Inr []"
    unfolding demo_search_limit by (rule demo_search_nothing)
  then have s: "search_vector_db_enhanced demo_cfg demo_adapters (replicate 1536 1) ''alice''
                    (search_limit ?q 8) ?w1 = (Inr [], ?w2)"
    by (metis prod.collapse)
  have c0: "chat_calls ?w = []" by (simp add: demo_owner_world_def demo_world_def)
  from empty_search_short_circuits [OF g s, where now = 5]
  have "query_knowledge_base demo_cfg demo_adapters ?q ''alice'' 8 5 ?w = (Inr no_info_message, ?w2)"
    and "chat_calls ?w2 = chat_calls ?w" by blast+
  with g f c0 show ?thesis by simp
qed

lemma generate_embedding_nonblank:
  "generate_embedding cfg ad q w = (Inr emb, w1) \<Longrightarrow> strip q \<noteq> []"
  by (auto simp: generate_embedding_def Let_def split: if_splits)

lemma generate_embedding_logged:
  "strip q \<noteq> [] \<Longrightarrow>
   length (embed_calls (snd (generate_embedding cfg ad q w))) = Suc (length (embed_calls w))"
  by (auto simp: generate_embedding_def Let_def split: prod.splits sum.splits)

lemma kb_calls:
  assumes g: "generate_embedding cfg ad q w = (rg, w1)"
  shows "embed_calls (snd (query_knowledge_base cfg ad q u limit now w)) = embed_calls w1 \<and>
         ((\<exists>emb. rg = Inr emb) \<longrightarrow>
          length (search_calls (snd (query_knowledge_base cfg ad q u limit now w))) =
            Suc (length (search_calls w)))"
proof (cases rg)
  case (Inl e)
  with g show ?thesis by (simp add: query_knowledge_base_def)
next
  case (Inr emb)
  obtain rs w2 where s: "search_with (Some (3 / 10)) cfg ad emb u (search_limit q limit) w1 = (rs, w2)"
    by (cases "search_with (Some (3 / 10)) cfg ad emb u (search_limit q limit) w1")
  from search_with_frame [OF s] have f2: "embed_calls w2 = embed_calls w1" by simp
  from search_with_logged [of "Some (3 / 10)" cfg ad emb u "search_limit q limit" w1] s
  have l2: "length (search_calls w2) = Suc (length (search_calls w1))" by simp
  from generate_embedding_frame [OF g] have l1: "search_calls w1 = search_calls w" by simp
  show ?thesis
  proof (cases rs)
    case (Inl e)
    with g Inr s f2 l1 l2 show ?thesis
      by (simp add: query_knowledge_base_def search_vector_db_enhanced_def)
  next
    case results: (Inr found)
    show ?thesis
    proof (cases "found = []")
      case True
      with g Inr s results f2 l1 l2 show ?thesis
        by (simp add: query_knowledge_base_def search_vector_db_enhanced_def)
    next
      case False
      obtain err cm where p: "cache_search_result q found u now (cache w2) = (err, cm)"
        by (cases "cache_search_result q found u now (cache w2)")
      obtain ra w3 where a: "answer_with cfg ad KnowledgeBasePrompt found q (w2\<lparr>cache := cm\<rparr>) = (ra, w3)"
        by (cases "answer_with cfg ad KnowledgeBasePrompt found q (w2\<lparr>cache := cm\<rparr>)")
      from answer_with_frame [OF a] have f3: "embed_calls w3 = embed_calls w2"
        "search_calls w3 = search_calls w2" by simp_all
      from g Inr s results False p a f2 f3 l1 l2 show ?thesis
        by (cases err; cases ra)
          (simp_all add: query_knowledge_base_def search_vector_db_enhanced_def)
    qed
  qed
qed

lemma miss_repeats_calls:
  assumes miss: "first_cache_hit q (get_cached_searches u 20 (cache w)) = None"
    and nb: "strip q \<noteq> []"
  shows "length (embed_calls (snd (search_cache_first cfg ad q u limit now w))) =
           Suc (length (embed_calls w)) \<and>
         ((\<exists>emb. fst (generate_embedding cfg ad q w) = Inr emb) \<longrightarrow>
          length (search_calls (snd (search_cache_first cfg ad q u limit now w))) =
            Suc (length (search_calls w)))"
proof -
  obtain rg w1 where g: "generate_embedding cfg ad q w = (rg, w1)"
    by (cases "generate_embedding cfg ad q w")
  from generate_embedding_logged [OF nb, of cfg ad w] g
  have "length (embed_calls w1) = Suc (length (embed_calls w))" by simp
  with kb_calls [OF g, of u limit now] search_cache_first_miss [OF miss, of cfg ad limit now] g
  show ?thesis by simp
qed

text \<open>
  C10. On that path the recency cache after the query is the cache from before: an empty
  result list is not cached. So the same query misses the cache again, from any state
  with this cache: the repetition sends one more request to the embedding service and,
  when that request succeeds, one more search to the vector store.
\<close>

theorem empty_results_never_cached:
  assumes "generate_embedding cfg ad q w = (Inr emb, w1)"
    and "search_vector_db_enhanced cfg ad emb u (search_limit q limit) w1 = (Inr [], w2)"
  shows "cache (snd (query_knowledge_base cfg ad q u limit now w)) = cache w \<and>
         (first_cache_hit q (get_cached_searches u 20 (cache w)) = None \<longrightarrow>
          cache (snd (search_cache_first cfg ad q u limit now w)) = cache w \<and>
          (\<forall>cfg' ad' limit' now' w'.
             cache w' = cache w \<longrightarrow>
             length (embed_calls (snd (search_cache_first cfg' ad' q u limit' now' w'))) =
               Suc (length (embed_calls w')) \<and>
             ((\<exists>emb'. fst (generate_embedding cfg' ad' q w') = Inr emb') \<longrightarrow>
              length (search_calls (snd (search_cache_first cfg' ad' q u limit' now' w'))) =
                Suc (length (search_calls w')))))"
proof -
  have kb: "query_knowledge_base cfg ad q u limit now w = (Inr no_info_message, w2)"
    by (rule kb_empty_results [OF assms])
  have c2: "cache w2 = cache w" using kb_empty_frame [OF assms] by simp
  have nb: "strip q \<noteq> []" by (rule generate_embedding_nonblank [OF assms(1)])
  have a: "cache (snd (query_knowledge_base cfg ad q u limit now w)) = cache w"
    using kb c2 by simp
  have b: "cache (snd (search_cache_first cfg ad q u limit now w)) = cache w"
    if "first_cache_hit q (get_cached_searches u 20 (cache w)) = None"
    using search_cache_first_miss [OF that, of cfg ad limit now] a by simp
  have c: "length (embed_calls (snd (search_cache_first cfg' ad' q u limit' now' w'))) =
               Suc (length (embed_calls w')) \<and>
             ((\<exists>emb'. fst (generate_embedding cfg' ad' q w') = Inr emb') \<longrightarrow>
              length (search_calls (snd (search_cache_first cfg' ad' q u limit' now' w'))) =
                Suc (length (search_calls w')))"
    if "first_cache_hit q (get_cached_searches u 20 (cache w)) = None" "cache w' = cache w"
    for cfg' ad' limit' now' w'
  proof -
    from that have "first_cache_hit q (get_cached_searches u 20 (cache w')) = None" by simp
    from miss_repeats_calls [OF this nb] show ?thesis .
  qed
  from a b c show ?thesis by blast
qed

theorem empty_results_never_cached_witness:
  "fst (generate_embedding demo_cfg demo_adapters ''capital of France''
          (demo_owner_world [demo_point ''p2'' ''bob'' ''Oslo''])) = Inr (replicate 1536 1) \<and>
   fst (search_vector_db_enhanced demo_cfg demo_adapters (replicate 1536 1) ''alice''
          (search_limit ''capital of France'' 8)
          (snd (generate_embedding demo_cfg demo_adapters ''capital of France''
                  (demo_owner_world [demo_point ''p2'' ''bob'' ''Oslo''])))) = Inr [] \<and>
   first_cache_hit ''capital of France''
     (get_cached_searches ''alice'' 20 (cache (demo_owner_world [demo_point ''p2'' ''bob'' ''Oslo'']))) = None \<and>
   search_cache (cache (snd (search_cache_first demo_cfg demo_adapters ''capital of France'' ''alice'' 8 5
          (demo_owner_world [demo_point ''p2'' ''bob'' ''Oslo''])))) = [] \<and>
   length (embed_calls (snd (search_cache_first demo_cfg demo_adapters ''capital of France'' ''alice'' 8 6
      (snd (search_cache_first demo_cfg demo_adapters ''capital of France'' ''alice'' 8 5
          (demo_owner_world [demo_point ''p2'' ''bob'' ''Oslo''])))))) = 2"
proof -
  let ?w = "demo_owner_world [demo_point ''p2'' ''bob'' ''Oslo'']"
  let ?q = "''capital of France''"
  let ?w1 = "?w\<lparr>embed_calls := [(OpenAICompatible, ''text-embedding-ada-002'', ?q)]\<rparr>"
  let ?w2 = "snd (search_vector_db_enhanced demo_cfg demo_adapters (replicate 1536 1) ''alice''
                    (search_limit ?q 8) ?w1)"
  let ?first = "snd (search_cache_first demo_cfg demo_adapters ?q ''alice'' 8 5 ?w)"
  have g: "generate_embedding demo_cfg demo_adapters ?q ?w = (Inr (replicate 1536 1), ?w1)"
    by (rule demo_embedding)
  have f: "fst (search_vector_db_enhanced demo_cfg demo_adapters (replicate 1536 1) ''alice''
                    (search_limit ?q 8) ?w1) = Inr []"
    unfolding demo_search_limit by (rule demo_search_nothing)
  then have s: "search_vector_db_enhanced demo_cfg demo_adapters (replicate 1536 1) ''alice''
                    (search_limit ?q 8) ?w1 = (Inr [], ?w2)"
    by (metis prod.collapse)
  have c: "cache ?w = \<lparr>max_search_cache = 10, search_cache = []\<rparr>"
    and e0: "embed_calls ?w = []"
    by (simp_all add: demo_owner_world_def demo_world_def)
  have miss: "first_cache_hit ?q (get_cached_searches ''alice'' 20 (cache ?w)) = None"
    unfolding c by (simp add: get_cached_searches_def slice_to_def)
  note T = empty_results_never_cached [OF g s, where now = 5]
  from T miss have same: "cache ?first = cache ?w" by blast
  from T miss have rep: "cache w' = cache ?w \<Longrightarrow>
      length (embed_calls (snd (search_cache_first demo_cfg demo_adapters ?q ''alice'' 8 now' w'))) =
        Suc (length (embed_calls w'))" for w' now'
    by blast
  from rep [of ?w 5] e0 have one: "length (embed_calls ?first) = 1" by simp
  from rep [OF same, of 6] one
  have two: "length (embed_calls (snd (search_cache_first demo_cfg demo_adapters ?q ''alice'' 8 6 ?first))) = 2"
    by simp
  from same c have "search_cache (cache ?first) = []" by simp
  with g f miss two show ?thesis by simp
qed

section \<open>Empty text for the embedding\<close>

text \<open>
  C7, as the claim states it: empty text fails with an error of a class of its own,
  distinct from the class of backend failures. The \<open>ValueError\<close> for the empty text is
  raised inside the \<open>try\<close> block whose handler turns every exception into
  \<open>AIServiceError\<close>, so blank text and a failing backend give the same class.
\<close>

theorem empty_input_same_class_counterexample:
  "strip ''   '' = [] \<and>
   fst (generate_embedding demo_cfg demo_adapters ''   '' (demo_owner_world [])) =
     Inl (Exn AIServiceError ''Failed to generate embedding with OpenAI: Text cannot be empty'') \<and>
   fst (generate_embedding demo_cfg failing_adapters ''Paris'' (demo_owner_world [])) =
     Inl (Exn AIServiceError ''Failed to generate embedding with OpenAI: Connection error.'') \<and>
   map_sum exn_class id
     (fst (generate_embedding demo_cfg demo_adapters ''   '' (demo_owner_world []))) =
   map_sum exn_class id
     (fst (generate_embedding demo_cfg failing_adapters ''Paris'' (demo_owner_world [])))"
  by (simp add: strip_def isspace_def generate_embedding_def demo_cfg_def demo_adapters_def
      failing_adapters_def embed_route_of_def openai_style_def)

text \<open>
  C7, amended. For text that is empty after trimming, \<open>generate_embedding\<close> fails before
  any request to the embedding service (the state is unchanged) with an \<open>AIServiceError\<close>
  whose message ends in \<open>Text cannot be empty\<close>; every failure of the function, this one
  and the backend failures alike, has the class \<open>AIServiceError\<close>.
\<close>

theorem empty_input_error_class:
  "(strip txt = [] \<longrightarrow>
      generate_embedding cfg ad txt w =
        (Inl (Exn AIServiceError
           (''Failed to generate embedding with '' @ provider cfg @ '': Text cannot be empty'')),
         w)) \<and>
   (\<forall>e w'. generate_embedding cfg ad txt w = (Inl e, w') \<longrightarrow> exn_class e = AIServiceError)"
  by (auto simp: generate_embedding_def Let_def split: if_splits prod.splits sum.splits)

theorem empty_input_error_class_witness:
  "strip ''   '' = [] \<and>
   generate_embedding demo_cfg demo_adapters ''   '' (demo_owner_world []) =
     (Inl (Exn AIServiceError ''Failed to generate embedding with OpenAI: Text cannot be empty''),
      demo_owner_world [])"
proof -
  have h: "strip ''   '' = []" by (simp add: strip_def isspace_def)
  from empty_input_error_class [of "''   ''" demo_cfg demo_adapters
      "demo_owner_world []"] h
  have "generate_embedding demo_cfg demo_adapters ''   '' (demo_owner_world []) =
     (Inl (Exn AIServiceError
        (''Failed to generate embedding with '' @ provider demo_cfg @ '': Text cannot be empty'')),
      demo_owner_world [])"
    by blast
  with h show ?thesis by (simp add: demo_cfg_def)
qed

end
